theory Spec2Isabelle
  imports Main "HOL-Library.AList"
begin

section \<open>File changes and changelists (models/fileChange, models/changelist.ts)\<close>

text \<open>
  Strings are byte lists. Dates are natural-number clock readings; every operation that
  calls \<^verbatim>\<open>new Date()\<close> takes the reading as its argument \<open>now\<close>.
\<close>

datatype FileChangeStatus = Modified | Added | Deleted | Renamed | Copied | Untracked | Conflicted

record FileChange =
  fc_path :: string
  fc_relativePath :: string
  fc_status :: FileChangeStatus
  fc_isStaged :: bool
  fc_isSelected :: bool
  fc_originalPath :: "string option"

record Changelist =
  cl_id :: string
  cl_name :: string
  cl_files :: "FileChange list"
  cl_isDefault :: bool
  cl_isActive :: bool
  cl_description :: "string option"
  cl_createdAt :: nat
  cl_modifiedAt :: nat

text \<open>\<^verbatim>\<open>addFile\<close>: a file whose path is already present leaves the changelist as it is.\<close>

definition addFile :: "nat \<Rightarrow> Changelist \<Rightarrow> FileChange \<Rightarrow> Changelist" where
  "addFile now cl file =
     (if list_ex (\<lambda>f. fc_path f = fc_path file) (cl_files cl) then cl
      else cl\<lparr>cl_files := cl_files cl @ [file], cl_modifiedAt := now\<rparr>)"

definition removeFile :: "nat \<Rightarrow> Changelist \<Rightarrow> string \<Rightarrow> Changelist" where
  "removeFile now cl filePath =
     (let filteredFiles = filter (\<lambda>f. fc_path f \<noteq> filePath) (cl_files cl)
      in if length filteredFiles = length (cl_files cl) then cl
         else cl\<lparr>cl_files := filteredFiles, cl_modifiedAt := now\<rparr>)"

definition rename :: "nat \<Rightarrow> Changelist \<Rightarrow> string \<Rightarrow> Changelist" where
  "rename now cl newName =
     (if cl_name cl = newName then cl else cl\<lparr>cl_name := newName, cl_modifiedAt := now\<rparr>)"

definition setActive :: "nat \<Rightarrow> Changelist \<Rightarrow> bool \<Rightarrow> Changelist" where
  "setActive now cl active =
     (if cl_isActive cl = active then cl else cl\<lparr>cl_isActive := active, cl_modifiedAt := now\<rparr>)"

definition hasFiles :: "Changelist \<Rightarrow> bool" where
  "hasFiles cl = (0 < length (cl_files cl))"

definition fileCount :: "Changelist \<Rightarrow> nat" where
  "fileCount cl = length (cl_files cl)"

definition createDefault :: "nat \<Rightarrow> Changelist" where
  "createDefault now =
     \<lparr>cl_id = ''default'', cl_name = ''Default Changelist'', cl_files = [],
      cl_isDefault = True, cl_isActive = True,
      cl_description = Some ''Default changelist for organizing changes'',
      cl_createdAt = now, cl_modifiedAt = now\<rparr>"

section \<open>ChangelistStore\<close>

text \<open>
  The store's \<^verbatim>\<open>Map<string, Changelist>\<close> is an association list in insertion order:
  \<^verbatim>\<open>set\<close> on a present key replaces the value in place and on a new key appends,
  \<^verbatim>\<open>delete\<close> drops the entry.
\<close>

record ChangelistStore =
  changelists :: "(string \<times> Changelist) list"
  activeChangelistId :: string

datatype store_error =
    NameEmpty
  | NameExists string
  | CannotDeleteDefault
  | ChangelistNotFound string
  | SourceNotFound string
  | TargetNotFound string
  | TypeError

definition newStore :: "nat \<Rightarrow> ChangelistStore" where
  "newStore now = \<lparr>changelists = [(''default'', createDefault now)], activeChangelistId = ''default''\<rparr>"

text \<open>\<^verbatim>\<open>String.prototype.trim\<close>, on the white space of the ASCII range.\<close>

definition isWhiteSpace :: "char \<Rightarrow> bool" where
  "isWhiteSpace c = (c \<in> set [CHR '' '', CHR 0x09, CHR 0x0A, CHR 0x0B, CHR 0x0C, CHR 0x0D])"

definition trim :: "string \<Rightarrow> string" where
  "trim s = rev (dropWhile isWhiteSpace (rev (dropWhile isWhiteSpace s)))"

definition getAllChangelists :: "ChangelistStore \<Rightarrow> Changelist list" where
  "getAllChangelists s = map snd (changelists s)"

definition getChangelist :: "ChangelistStore \<Rightarrow> string \<Rightarrow> Changelist option" where
  "getChangelist s k = map_of (changelists s) k"

text \<open>
  \<^verbatim>\<open>createChangelist\<close>; the id produced by \<^verbatim>\<open>Changelist.generateId()\<close> (clock and random
  suffix) is the argument \<open>newId\<close>.
\<close>

definition createChangelist ::
  "nat \<Rightarrow> string \<Rightarrow> string \<Rightarrow> string option \<Rightarrow> ChangelistStore \<Rightarrow> store_error + ChangelistStore" where
  "createChangelist now newId name description s =
     (if trim name = [] then Inl NameEmpty
      else if list_ex (\<lambda>cl. cl_name cl = trim name) (getAllChangelists s) then Inl (NameExists name)
      else Inr (s\<lparr>changelists := AList.update newId
                  \<lparr>cl_id = newId, cl_name = trim name, cl_files = [], cl_isDefault = False,
                   cl_isActive = False, cl_description = map_option trim description,
                   cl_createdAt = now, cl_modifiedAt = now\<rparr> (changelists s)\<rparr>))"

text \<open>
  \<^verbatim>\<open>deleteChangelist\<close>. \<^verbatim>\<open>this.changelists.get('default')!\<close> on a store without a default
  entry is \<^verbatim>\<open>undefined\<close>, and the first \<^verbatim>\<open>cl.addFile\<close> of the reduce then raises a TypeError.
\<close>

definition deleteChangelist :: "nat \<Rightarrow> string \<Rightarrow> ChangelistStore \<Rightarrow> store_error + ChangelistStore" where
  "deleteChangelist now ident s =
     (if ident = ''default'' then Inl CannotDeleteDefault
      else case map_of (changelists s) ident of
        None \<Rightarrow> Inl (ChangelistNotFound ident)
      | Some changelist \<Rightarrow>
          (case (if hasFiles changelist
                 then (case map_of (changelists s) ''default'' of
                         None \<Rightarrow> Inl TypeError
                       | Some defaultChangelist \<Rightarrow>
                           Inr (AList.update ''default''
                                  (foldl (addFile now) defaultChangelist (cl_files changelist))
                                  (changelists s)))
                 else Inr (changelists s)) of
             Inl e \<Rightarrow> Inl e
           | Inr cls1 \<Rightarrow>
               Inr \<lparr>changelists = AList.delete ident cls1,
                    activeChangelistId =
                      (if activeChangelistId s = ident then ''default'' else activeChangelistId s)\<rparr>))"

definition renameChangelist ::
  "nat \<Rightarrow> string \<Rightarrow> string \<Rightarrow> ChangelistStore \<Rightarrow> store_error + ChangelistStore" where
  "renameChangelist now ident newName s =
     (if trim newName = [] then Inl NameEmpty
      else case map_of (changelists s) ident of
        None \<Rightarrow> Inl (ChangelistNotFound ident)
      | Some changelist \<Rightarrow>
          (if list_ex (\<lambda>(otherId, other). otherId \<noteq> ident \<and> cl_name other = trim newName) (changelists s)
           then Inl (NameExists newName)
           else Inr (s\<lparr>changelists :=
                        AList.update ident (rename now changelist (trim newName)) (changelists s)\<rparr>)))"

definition moveFiles ::
  "nat \<Rightarrow> string list \<Rightarrow> string \<Rightarrow> string \<Rightarrow> ChangelistStore \<Rightarrow> store_error + ChangelistStore" where
  "moveFiles now filePaths fromId toId s =
     (if fromId = toId then Inr s
      else case map_of (changelists s) fromId of
        None \<Rightarrow> Inl (SourceNotFound fromId)
      | Some fromChangelist \<Rightarrow>
          (case map_of (changelists s) toId of
             None \<Rightarrow> Inl (TargetNotFound toId)
           | Some toChangelist \<Rightarrow>
               (let filesToMove = filter (\<lambda>f. fc_path f \<in> set filePaths) (cl_files fromChangelist)
                in if length filesToMove = 0 then Inr s
                   else
                     let updatedFrom = foldl (\<lambda>cl f. removeFile now cl (fc_path f)) fromChangelist filesToMove;
                         updatedTo = foldl (addFile now) toChangelist filesToMove
                     in Inr (s\<lparr>changelists :=
                                 AList.update toId updatedTo
                                   (AList.update fromId updatedFrom (changelists s))\<rparr>))))"

definition addFileToChangelist ::
  "nat \<Rightarrow> FileChange \<Rightarrow> string \<Rightarrow> ChangelistStore \<Rightarrow> store_error + ChangelistStore" where
  "addFileToChangelist now file changelistId s =
     (case map_of (changelists s) changelistId of
        None \<Rightarrow> Inl (ChangelistNotFound changelistId)
      | Some changelist \<Rightarrow>
          Inr (s\<lparr>changelists := AList.update changelistId (addFile now changelist file) (changelists s)\<rparr>))"

definition removeFileFromChangelist ::
  "nat \<Rightarrow> FileChange \<Rightarrow> string \<Rightarrow> ChangelistStore \<Rightarrow> store_error + ChangelistStore" where
  "removeFileFromChangelist now file changelistId s =
     (case map_of (changelists s) changelistId of
        None \<Rightarrow> Inl (ChangelistNotFound changelistId)
      | Some changelist \<Rightarrow>
          Inr (s\<lparr>changelists :=
                  AList.update changelistId (removeFile now changelist (fc_path file)) (changelists s)\<rparr>))"

text \<open>
  \<^verbatim>\<open>setActiveChangelist\<close>: the loop visits every entry once (replacing the value of a
  present key does not disturb the iteration) and flips the flags that disagree.
\<close>

definition setActiveChangelist :: "nat \<Rightarrow> string \<Rightarrow> ChangelistStore \<Rightarrow> store_error + ChangelistStore" where
  "setActiveChangelist now ident s =
     (if map_of (changelists s) ident = None then Inl (ChangelistNotFound ident)
      else Inr \<lparr>changelists =
                  map (\<lambda>(changelistId, changelist).
                         (changelistId,
                          if cl_isActive changelist \<noteq> (changelistId = ident)
                          then setActive now changelist (changelistId = ident)
                          else changelist))
                      (changelists s),
                activeChangelistId = ident\<rparr>)"

definition updateChangelist ::
  "string \<Rightarrow> (Changelist \<Rightarrow> Changelist) \<Rightarrow> ChangelistStore \<Rightarrow> store_error + ChangelistStore" where
  "updateChangelist ident updater s =
     (case map_of (changelists s) ident of
        None \<Rightarrow> Inl (ChangelistNotFound ident)
      | Some changelist \<Rightarrow>
          Inr (s\<lparr>changelists := AList.update ident (updater changelist) (changelists s)\<rparr>))"

text \<open>A call that throws leaves the store as it was; the caller goes on with the next call.\<close>

definition attempt :: "(ChangelistStore \<Rightarrow> store_error + ChangelistStore) \<Rightarrow> ChangelistStore \<Rightarrow> ChangelistStore" where
  "attempt operation s = (case operation s of Inl e \<Rightarrow> s | Inr s' \<Rightarrow> s')"

definition activeCount :: "ChangelistStore \<Rightarrow> nat" where
  "activeCount s = length (filter cl_isActive (getAllChangelists s))"

section \<open>Shelved files (models/shelvedFile.ts)\<close>

record ShelvedFile =
  sf_path :: string
  sf_relativePath :: string
  originalContent :: string
  shelvedContent :: string
  sf_status :: FileChangeStatus
  encoding :: string

definition NL :: char where
  "NL = CHR 0x0A"

text \<open>\<^verbatim>\<open>s.split('\n')\<close>: never empty, the empty string gives one empty line.\<close>

fun splitLines :: "string \<Rightarrow> string list" where
  "splitLines [] = [[]]"
| "splitLines (c # cs) =
     (if c = NL then [] # splitLines cs
      else (case splitLines cs of [] \<Rightarrow> [[c]] | l # ls \<Rightarrow> (c # l) # ls))"

text \<open>\<^verbatim>\<open>lines[i] || ''\<close>: a missing line reads as the empty string.\<close>

definition lineAt :: "string list \<Rightarrow> nat \<Rightarrow> string" where
  "lineAt ls i = (if i < length ls then ls ! i else [])"

definition digitChar :: "nat \<Rightarrow> char" where
  "digitChar d = ''0123456789'' ! d"

fun showNat :: "nat \<Rightarrow> string" where
  "showNat n = (if n < 10 then [digitChar n] else showNat (n div 10) @ [digitChar (n mod 10)])"

definition canRestore :: "ShelvedFile \<Rightarrow> string \<Rightarrow> bool" where
  "canRestore file currentContent = (originalContent file = currentContent)"

definition detectConflicts :: "ShelvedFile \<Rightarrow> string \<Rightarrow> string list" where
  "detectConflicts file currentContent =
     (if canRestore file currentContent then []
      else
        let originalLines = splitLines (originalContent file);
            currentLines = splitLines currentContent;
            shelvedLines = splitLines (shelvedContent file);
            maxLines = max (max (length originalLines) (length currentLines)) (length shelvedLines);
            conflicts =
              concat (map (\<lambda>i. if lineAt originalLines i \<noteq> lineAt currentLines i
                                   \<and> lineAt originalLines i \<noteq> lineAt shelvedLines i
                                then [''Line '' @ showNat (i + 1) @ '': conflicting changes'']
                                else [])
                          [0..<maxLines])
        in if length conflicts = 0 \<and> length originalLines \<noteq> length currentLines
           then conflicts @ [''File length changed since shelving'']
           else conflicts)"

section \<open>ShelveStore\<close>

text \<open>
  The file system is a map from paths to contents; \<^verbatim>\<open>fs.readFile\<close> of a path outside
  its domain raises. Directories are not modelled: \<^verbatim>\<open>fs.writeFile\<close> and \<^verbatim>\<open>fs.mkdir\<close>
  always succeed.
\<close>

type_synonym disk = "string \<rightharpoonup> string"

record Shelf =
  sh_id :: string
  sh_name :: string
  sh_files :: "ShelvedFile list"
  sh_timestamp :: nat
  sh_branch :: string
  sh_parentCommit :: string
  sh_changelistId :: "string option"
  sh_description :: "string option"

record ShelveStore =
  shelves :: "(string \<times> Shelf) list"
  files_on_disk :: disk

record UnshelveOptions =
  keepShelf :: bool
  forceMerge :: bool
  selectedFiles :: "string list option"

record ShelveOptions =
  removeFromWorkspace :: bool
  includeUntracked :: bool
  so_description :: "string option"

record ConflictDetails =
  cd_filePath :: string
  cd_conflicts :: "string list"
  canResolve :: bool

record ConflictReport =
  hasConflicts :: bool
  conflictingFiles :: "string list"
  canAutoMerge :: bool
  details :: "ConflictDetails list"

datatype shelf_error =
    ShelfNotFound
  | NoWorkspaceFolder
  | NoFilesSelected
  | ReadFailed string
  | CannotUnshelve string
  | CannotRestore string

definition getOriginalContent :: "disk \<Rightarrow> string \<Rightarrow> string" where
  "getOriginalContent d filePath = (case d filePath of None \<Rightarrow> [] | Some content \<Rightarrow> content)"

text \<open>
  \<^verbatim>\<open>createShelvedFile\<close> reads the file twice, with a suspension point in between:
  \<open>d1\<close> is the file system at the first read, \<open>d2\<close> at the second.
\<close>

definition createShelvedFile :: "disk \<Rightarrow> disk \<Rightarrow> FileChange \<Rightarrow> shelf_error + ShelvedFile" where
  "createShelvedFile d1 d2 file =
     (case d1 (fc_path file) of
        None \<Rightarrow> Inl (ReadFailed (fc_path file))
      | Some currentContent \<Rightarrow>
          Inr \<lparr>sf_path = fc_path file, sf_relativePath = fc_relativePath file,
               originalContent = getOriginalContent d2 (fc_path file),
               shelvedContent = currentContent,
               sf_status = fc_status file, encoding = ''utf8''\<rparr>)"

fun createShelvedFiles :: "disk \<Rightarrow> FileChange list \<Rightarrow> shelf_error + ShelvedFile list" where
  "createShelvedFiles d [] = Inr []"
| "createShelvedFiles d (f # fs) =
     (case createShelvedFile d d f of
        Inl e \<Rightarrow> Inl e
      | Inr sf \<Rightarrow> (case createShelvedFiles d fs of Inl e \<Rightarrow> Inl e | Inr sfs \<Rightarrow> Inr (sf # sfs)))"

definition removeFilesFromWorkspace :: "FileChange list \<Rightarrow> disk \<Rightarrow> disk" where
  "removeFilesFromWorkspace fs d = foldl (\<lambda>d' f. d'(fc_path f \<mapsto> [])) d fs"

text \<open>
  \<^verbatim>\<open>createShelf\<close>; \<open>workspaceFolder\<close> says whether the editor has a workspace folder and
  \<open>newId\<close> is the result of \<^verbatim>\<open>Shelf.generateId()\<close>.
\<close>

definition createShelf ::
  "bool \<Rightarrow> nat \<Rightarrow> string \<Rightarrow> string \<Rightarrow> FileChange list \<Rightarrow> ShelveOptions \<Rightarrow> ShelveStore
     \<Rightarrow> shelf_error + (Shelf \<times> ShelveStore)" where
  "createShelf workspaceFolder now newId name fs options st =
     (if \<not> workspaceFolder then Inl NoWorkspaceFolder
      else if length fs = 0 then Inl NoFilesSelected
      else case createShelvedFiles (files_on_disk st) fs of
        Inl e \<Rightarrow> Inl e
      | Inr shelvedFiles \<Rightarrow>
          let shelf = \<lparr>sh_id = newId, sh_name = name, sh_files = shelvedFiles, sh_timestamp = now,
                       sh_branch = ''main'', sh_parentCommit = ''HEAD'', sh_changelistId = None,
                       sh_description = so_description options\<rparr>
          in Inr (shelf,
                  \<lparr>shelves = AList.update newId shelf (shelves st),
                   files_on_disk =
                     (if removeFromWorkspace options
                      then removeFilesFromWorkspace fs (files_on_disk st)
                      else files_on_disk st)\<rparr>))"

text \<open>The loop body of \<^verbatim>\<open>previewUnshelve\<close>, on the pair of lists it fills.\<close>

definition previewFile ::
  "disk \<Rightarrow> string list \<times> ConflictDetails list \<Rightarrow> ShelvedFile \<Rightarrow> string list \<times> ConflictDetails list" where
  "previewFile d acc file =
     (case d (sf_path file) of
        None \<Rightarrow>
          (fst acc,
           snd acc @ [\<lparr>cd_filePath = sf_relativePath file,
                       cd_conflicts = [''File does not exist in workspace''], canResolve = True\<rparr>])
      | Some currentContent \<Rightarrow>
          (let conflicts = detectConflicts file currentContent
           in if 0 < length conflicts
              then (fst acc @ [sf_relativePath file],
                    snd acc @ [\<lparr>cd_filePath = sf_relativePath file, cd_conflicts = conflicts,
                                canResolve = (length conflicts = 1)\<rparr>])
              else acc))"

definition previewUnshelve :: "string \<Rightarrow> ShelveStore \<Rightarrow> shelf_error + ConflictReport" where
  "previewUnshelve shelfId st =
     (case map_of (shelves st) shelfId of
        None \<Rightarrow> Inl ShelfNotFound
      | Some shelf \<Rightarrow>
          (let acc = foldl (previewFile (files_on_disk st)) ([], []) (sh_files shelf)
           in Inr \<lparr>hasConflicts = (0 < length (fst acc)), conflictingFiles = fst acc,
                   canAutoMerge = list_all canResolve (snd acc), details = snd acc\<rparr>))"

text \<open>
  \<^verbatim>\<open>restoreFile\<close>: \<open>restoreFileTry\<close> is the body of the \<^verbatim>\<open>try\<close> block, whose failures
  (the read of a missing file, and the \<^verbatim>\<open>throw\<close> of the conflict branch) all reach the
  \<^verbatim>\<open>catch\<close> block, which creates the directory and writes the shelved content.
\<close>

definition restoreFileTry :: "ShelvedFile \<Rightarrow> bool \<Rightarrow> disk \<Rightarrow> shelf_error + disk" where
  "restoreFileTry file force d =
     (if force then Inr (d(sf_path file \<mapsto> shelvedContent file))
      else case d (sf_path file) of
        None \<Rightarrow> Inl (ReadFailed (sf_path file))
      | Some currentContent \<Rightarrow>
          (if canRestore file currentContent
           then Inr (d(sf_path file \<mapsto> shelvedContent file))
           else Inl (CannotRestore (sf_relativePath file))))"

definition restoreFile :: "ShelvedFile \<Rightarrow> bool \<Rightarrow> disk \<Rightarrow> shelf_error + disk" where
  "restoreFile file force d =
     (case restoreFileTry file force d of
        Inr d' \<Rightarrow> Inr d'
      | Inl e \<Rightarrow> Inr (d(sf_path file \<mapsto> shelvedContent file)))"

text \<open>
  The restore loop of \<^verbatim>\<open>unshelve\<close>: a failure stops it and leaves the files written so
  far written, so the error comes with the file system it leaves behind.
\<close>

fun restoreFiles :: "ShelvedFile list \<Rightarrow> bool \<Rightarrow> disk \<Rightarrow> (shelf_error \<times> disk) + disk" where
  "restoreFiles [] force d = Inr d"
| "restoreFiles (f # fs) force d =
     (case restoreFile f force d of
        Inl e \<Rightarrow> Inl (e, d)
      | Inr d' \<Rightarrow> restoreFiles fs force d')"

fun joinWith :: "string \<Rightarrow> string list \<Rightarrow> string" where
  "joinWith sep [] = []"
| "joinWith sep [x] = x"
| "joinWith sep (x # y # ys) = x @ sep @ joinWith sep (y # ys)"

definition unshelve ::
  "string \<Rightarrow> UnshelveOptions \<Rightarrow> ShelveStore \<Rightarrow> (shelf_error \<times> ShelveStore) + ShelveStore" where
  "unshelve shelfId options st =
     (case map_of (shelves st) shelfId of
        None \<Rightarrow> Inl (ShelfNotFound, st)
      | Some shelf \<Rightarrow>
          (case previewUnshelve shelfId st of
             Inl e \<Rightarrow> Inl (e, st)
           | Inr conflicts \<Rightarrow>
               (if hasConflicts conflicts \<and> \<not> forceMerge options
                then Inl (CannotUnshelve (joinWith '', '' (conflictingFiles conflicts)), st)
                else
                  let filesToRestore =
                        (case selectedFiles options of
                           Some sel \<Rightarrow> filter (\<lambda>f. sf_path f \<in> set sel) (sh_files shelf)
                         | None \<Rightarrow> sh_files shelf)
                  in case restoreFiles filesToRestore (forceMerge options) (files_on_disk st) of
                       Inl (e, d) \<Rightarrow> Inl (e, st\<lparr>files_on_disk := d\<rparr>)
                     | Inr d \<Rightarrow>
                         Inr \<lparr>shelves = (if keepShelf options then shelves st
                                         else AList.delete shelfId (shelves st)),
                              files_on_disk = d\<rparr>)))"

section \<open>Status classification (services/fileStatusService.ts)\<close>

datatype FileStatus =
    FS_Untracked | FS_Modified | FS_Staged | FS_Deleted | FS_Added | FS_Ignored | FS_Clean
  | FS_Conflicted

text \<open>The buckets of the raw status result that the classification reads.\<close>

record GitStatus =
  gs_untracked :: "string list"
  gs_modified :: "string list"
  gs_staged :: "string list"
  gs_deleted :: "string list"
  gs_added :: "string list"
  gs_conflicted :: "string list"

text \<open>
  \<^verbatim>\<open>detectStatusWithGitProvider\<close>; \<open>None\<close> is a status query that raised, which the
  function reports as a clean file.
\<close>

definition detectStatusWithGitProvider :: "GitStatus option \<Rightarrow> string \<Rightarrow> FileStatus" where
  "detectStatusWithGitProvider result relativePath =
     (case result of
        None \<Rightarrow> FS_Clean
      | Some status \<Rightarrow>
          if relativePath \<in> set (gs_untracked status) then FS_Untracked
          else if relativePath \<in> set (gs_modified status) then FS_Modified
          else if relativePath \<in> set (gs_staged status) then FS_Staged
          else if relativePath \<in> set (gs_deleted status) then FS_Deleted
          else if relativePath \<in> set (gs_added status) then FS_Added
          else if relativePath \<in> set (gs_conflicted status) then FS_Conflicted
          else FS_Clean)"

text \<open>
  The branch of \<^verbatim>\<open>detectFileStatus\<close> that reads the editor's own Git state (paths with the
  numeric status of a working-tree change); \<open>None\<close> is a path found in none of the four
  collections, for which the caller falls back to \<open>detectStatusWithGitProvider\<close>.
\<close>

record RepositoryState =
  workingTreeChanges :: "(string \<times> nat) list"
  indexChanges :: "string list"
  untrackedChanges :: "string list"
  mergeChanges :: "string list"

definition detectWithRepository :: "RepositoryState \<Rightarrow> string \<Rightarrow> FileStatus option" where
  "detectWithRepository repo fsPath =
     (if fsPath \<in> set (mergeChanges repo) then Some FS_Conflicted
      else if fsPath \<in> set (indexChanges repo) then Some FS_Staged
      else if fsPath \<in> set (untrackedChanges repo) then Some FS_Untracked
      else case map_of (workingTreeChanges repo) fsPath of
        None \<Rightarrow> None
      | Some code \<Rightarrow>
          Some (if code = 5 then FS_Modified else if code = 6 then FS_Deleted
                else if code = 7 then FS_Added else FS_Modified))"

section \<open>Diff parser (GutterDecorationService.parseDiff)\<close>

datatype LineChangeType = added | modified | deleted

record LineChange =
  lc_type :: LineChangeType
  startLine :: int
  endLine :: int

definition startsWith :: "string \<Rightarrow> string \<Rightarrow> bool" where
  "startsWith line p = (take (length p) line = p)"

definition isDigit :: "char \<Rightarrow> bool" where
  "isDigit c = (c \<in> set ''0123456789'')"

definition digitValue :: "char \<Rightarrow> int" where
  "digitValue c = int (of_char c) - 48"

definition parseInt :: "string \<Rightarrow> int" where
  "parseInt ds = foldl (\<lambda>a c. 10 * a + digitValue c) 0 ds"

text \<open>
  Line numbers are unbounded integers: the rounding of JavaScript numbers beyond \<open>2^53\<close>
  is not modelled.
\<close>

text \<open>Drop a literal prefix, or fail.\<close>

definition expect :: "string \<Rightarrow> string \<Rightarrow> string option" where
  "expect p s = (if startsWith s p then Some (drop (length p) s) else None)"

definition optComma :: "string \<Rightarrow> string" where
  "optComma s = (case s of [] \<Rightarrow> [] | c # cs \<Rightarrow> if c = CHR '','' then cs else s)"

text \<open>
  The pattern \<^verbatim>\<open>/@@ -\d+,?\d* \+(\d+),?\d* @@/\<close> at the start of \<open>s\<close>: the captured
  group on success. Every quantifier of the pattern is followed by a character outside its
  own class, so the greedy choice is the only one that can succeed and the matcher needs
  no backtracking.
\<close>

definition matchHunkAt :: "string \<Rightarrow> string option" where
  "matchHunkAt s =
     (case expect ''@@ -'' s of
        None \<Rightarrow> None
      | Some s1 \<Rightarrow>
          if takeWhile isDigit s1 = [] then None
          else case expect '' +'' (dropWhile isDigit (optComma (dropWhile isDigit s1))) of
            None \<Rightarrow> None
          | Some s2 \<Rightarrow>
              if takeWhile isDigit s2 = [] then None
              else case expect '' @@'' (dropWhile isDigit (optComma (dropWhile isDigit s2))) of
                None \<Rightarrow> None
              | Some s3 \<Rightarrow> Some (takeWhile isDigit s2))"

text \<open>\<^verbatim>\<open>line.match(...)\<close> is a search: the leftmost position where the pattern matches.\<close>

fun matchHunk :: "string \<Rightarrow> string option" where
  "matchHunk [] = matchHunkAt []"
| "matchHunk (c # cs) =
     (case matchHunkAt (c # cs) of Some g \<Rightarrow> Some g | None \<Rightarrow> matchHunk cs)"

definition addOrExtendChange :: "LineChange list \<Rightarrow> LineChangeType \<Rightarrow> int \<Rightarrow> LineChange list" where
  "addOrExtendChange changes ty line =
     (if changes \<noteq> [] \<and> lc_type (last changes) = ty \<and> endLine (last changes) = line - 1
      then butlast changes @ [(last changes)\<lparr>endLine := line\<rparr>]
      else changes @ [\<lparr>lc_type = ty, startLine = line, endLine = line\<rparr>])"

record ParseState =
  changes :: "LineChange list"
  currentLine :: int
  inHunk :: bool

text \<open>The body of the loop of \<^verbatim>\<open>parseDiff\<close>.\<close>

definition parseLine :: "ParseState \<Rightarrow> string \<Rightarrow> ParseState" where
  "parseLine st line =
     (if startsWith line ''@@'' then
        (case matchHunk line of
           Some g \<Rightarrow> st\<lparr>currentLine := parseInt g - 1, inHunk := True\<rparr>
         | None \<Rightarrow> st)
      else if inHunk st then
        (if startsWith line ''+'' then
           st\<lparr>changes := addOrExtendChange (changes st) added (currentLine st),
              currentLine := currentLine st + 1\<rparr>
         else if startsWith line ''-'' then
           st\<lparr>changes := addOrExtendChange (changes st) deleted (currentLine st - 1)\<rparr>
         else if \<not> startsWith line [CHR 0x5C] then
           st\<lparr>currentLine := currentLine st + 1\<rparr>
         else st)
      else st)"

definition initialState :: ParseState where
  "initialState = \<lparr>changes = [], currentLine = 0, inHunk = False\<rparr>"

definition parseLines :: "ParseState \<Rightarrow> string list \<Rightarrow> ParseState" where
  "parseLines st ls = foldl parseLine st ls"

definition parseDiff :: "string \<Rightarrow> LineChange list" where
  "parseDiff diff = changes (parseLines initialState (splitLines diff))"

text \<open>
  A line is a hunk header when it starts with \<^verbatim>\<open>@@\<close> and the pattern matches it.
\<close>

definition isHunkHeader :: "string \<Rightarrow> bool" where
  "isHunkHeader line = (startsWith line ''@@'' \<and> matchHunk line \<noteq> None)"

text \<open>
  The hunks of a diff are ascending when no hunk header met while in a hunk moves the line
  counter backwards.
\<close>

fun hunksAscending :: "ParseState \<Rightarrow> string list \<Rightarrow> bool" where
  "hunksAscending st [] = True"
| "hunksAscending st (l # ls) =
     ((if isHunkHeader l \<and> inHunk st then currentLine st \<le> currentLine (parseLine st l) else True)
      \<and> hunksAscending (parseLine st l) ls)"

definition overlap :: "LineChange \<Rightarrow> LineChange \<Rightarrow> bool" where
  "overlap a b = (startLine a \<le> endLine b \<and> startLine b \<le> endLine a)"

text \<open>
  \<open>keepsRanges c1 c2\<close>: every range of \<open>c1\<close> is still in \<open>c2\<close> at the same position with
  the same type and start line; only the last range of \<open>c1\<close> may have grown.
\<close>

definition keepsRanges :: "LineChange list \<Rightarrow> LineChange list \<Rightarrow> bool" where
  "keepsRanges c1 c2 =
     (length c1 \<le> length c2
      \<and> list_all (\<lambda>i. lc_type (c2 ! i) = lc_type (c1 ! i)
                     \<and> startLine (c2 ! i) = startLine (c1 ! i)
                     \<and> endLine (c1 ! i) \<le> endLine (c2 ! i)
                     \<and> (if Suc i < length c1 then c2 ! i = c1 ! i else True))
           [0..<length c1])"

definition isAdded :: "LineChange \<Rightarrow> bool" where
  "isAdded r = (lc_type r = added)"

text \<open>
  The invariant of the parser loop behind the separation of the added ranges: nothing is
  emitted before the first hunk, every added range ends before the line counter, and each
  added range ends before the next one starts.
\<close>

definition addedBelowCounter :: "ParseState \<Rightarrow> bool" where
  "addedBelowCounter st =
     ((inHunk st \<or> changes st = [])
      \<and> list_all (\<lambda>r. endLine r < currentLine st) (filter isAdded (changes st))
      \<and> sorted_wrt (\<lambda>a b. endLine a < startLine b) (filter isAdded (changes st)))"

text \<open>
  The code's line numbers are double-precision numbers. The integers of the model agree
  with them as long as every number read from a hunk header and every value of the line
  counter stays at most \<^verbatim>\<open>Number.MAX_SAFE_INTEGER\<close>, where the code's arithmetic is
  exact; beyond it the code rounds and the model does not. \<open>withinSafeIntegers st ls\<close>
  says that the run of the loop on \<open>ls\<close> from \<open>st\<close> stays in that range.
\<close>

definition maxSafeInteger :: int where
  "maxSafeInteger = 2 ^ 53 - 1"

fun withinSafeIntegers :: "ParseState \<Rightarrow> string list \<Rightarrow> bool" where
  "withinSafeIntegers st [] = True"
| "withinSafeIntegers st (l # ls) =
     ((if startsWith l ''@@''
       then (case matchHunk l of Some g \<Rightarrow> parseInt g \<le> maxSafeInteger | None \<Rightarrow> True)
       else True)
      \<and> currentLine (parseLine st l) \<le> maxSafeInteger
      \<and> withinSafeIntegers (parseLine st l) ls)"

text \<open>A range whose line numbers are in the range where the code's numbers are exact.\<close>

definition withinSafeRange :: "LineChange \<Rightarrow> bool" where
  "withinSafeRange r =
     (- 2 \<le> startLine r \<and> startLine r \<le> endLine r \<and> endLine r \<le> maxSafeInteger)"

text \<open>Every changelist of the store is stored under its own id.\<close>

definition keyedById :: "ChangelistStore \<Rightarrow> bool" where
  "keyedById s = list_all (\<lambda>(k, c). cl_id c = k) (changelists s)"

declare showNat.simps [simp del]

section \<open>Properties of changelists\<close>

lemma addFile_id [simp]: "cl_id (addFile now cl f) = cl_id cl"
  by (simp add: addFile_def)

lemma addFile_isActive [simp]: "cl_isActive (addFile now cl f) = cl_isActive cl"
  by (simp add: addFile_def)

lemma addFile_paths_mono: "fc_path ` set (cl_files cl) \<subseteq> fc_path ` set (cl_files (addFile now cl f))"
  by (auto simp: addFile_def)

lemma addFile_length_le: "length (cl_files (addFile now cl f)) \<le> Suc (length (cl_files cl))"
  by (simp add: addFile_def)

lemma list_ex_path_iff:
  "list_ex (\<lambda>g. fc_path g = fc_path f) fs \<longleftrightarrow> fc_path f \<in> fc_path ` set fs"
  unfolding list_ex_iff by (metis (mono_tags, lifting) image_iff)

lemma addFile_present:
  "fc_path f \<in> fc_path ` set (cl_files cl) \<Longrightarrow> addFile now cl f = cl"
  by (simp add: addFile_def list_ex_path_iff)

lemma addFile_absent:
  "fc_path f \<notin> fc_path ` set (cl_files cl) \<Longrightarrow>
     cl_files (addFile now cl f) = cl_files cl @ [f]"
  by (simp add: addFile_def list_ex_path_iff)

lemma foldl_addFile_id [simp]: "cl_id (foldl (addFile now) cl fs) = cl_id cl"
  by (induction fs arbitrary: cl) simp_all

lemma foldl_addFile_isActive [simp]: "cl_isActive (foldl (addFile now) cl fs) = cl_isActive cl"
  by (induction fs arbitrary: cl) simp_all

lemma foldl_addFile_length_le:
  "length (cl_files (foldl (addFile now) cl fs)) \<le> length (cl_files cl) + length fs"
proof (induction fs arbitrary: cl)
  case Nil
  show ?case by simp
next
  case (Cons f fs)
  have "length (cl_files (foldl (addFile now) (addFile now cl f) fs))
          \<le> length (cl_files (addFile now cl f)) + length fs"
    by (rule Cons.IH)
  also have "\<dots> \<le> Suc (length (cl_files cl)) + length fs"
    using addFile_length_le [of now cl f] by simp
  finally show ?case by simp
qed

lemma foldl_addFile_length_less:
  assumes "\<exists>f \<in> set fs. fc_path f \<in> fc_path ` set (cl_files cl)"
  shows "length (cl_files (foldl (addFile now) cl fs)) < length (cl_files cl) + length fs"
  using assms
proof (induction fs arbitrary: cl)
  case Nil
  then show ?case by simp
next
  case (Cons f fs)
  show ?case
  proof (cases "fc_path f \<in> fc_path ` set (cl_files cl)")
    case True
    then have "addFile now cl f = cl" by (rule addFile_present)
    then show ?thesis
      using foldl_addFile_length_le [of now cl fs] by simp
  next
    case False
    with Cons.prems obtain g where g: "g \<in> set fs" "fc_path g \<in> fc_path ` set (cl_files cl)"
      by auto
    then have "\<exists>g \<in> set fs. fc_path g \<in> fc_path ` set (cl_files (addFile now cl f))"
      using addFile_paths_mono [of cl now f] by blast
    then have "length (cl_files (foldl (addFile now) (addFile now cl f) fs))
                 < length (cl_files (addFile now cl f)) + length fs"
      by (rule Cons.IH)
    then show ?thesis
      using addFile_length_le [of now cl f] by simp
  qed
qed

text \<open>
  Claim C9. For a changelist \<open>cl\<close> and a file change \<open>f\<close> whose path is not the path of
  any file of \<open>cl\<close>: after \<^verbatim>\<open>cl.addFile(f)\<close> the file list holds \<open>f\<close> exactly once; adding
  \<open>f\<close> again returns the same changelist, so the length of the file list does not change;
  and if the paths of \<open>cl\<close> were pairwise distinct, they still are.
\<close>

theorem addFile_new_file_once:
  assumes "fc_path f \<notin> fc_path ` set (cl_files cl)"
  shows "count_list (cl_files (addFile now cl f)) f = 1
       \<and> addFile now' (addFile now cl f) f = addFile now cl f
       \<and> length (cl_files (addFile now' (addFile now cl f) f)) = length (cl_files (addFile now cl f))
       \<and> (distinct (map fc_path (cl_files cl))
            \<longrightarrow> distinct (map fc_path (cl_files (addFile now cl f))))"
proof -
  have files: "cl_files (addFile now cl f) = cl_files cl @ [f]"
    using assms by (rule addFile_absent)
  have notin: "f \<notin> set (cl_files cl)"
    using assms by blast
  have once: "count_list (cl_files (addFile now cl f)) f = 1"
    using notin by (simp add: files count_list_0_iff)
  have again: "addFile now' (addFile now cl f) f = addFile now cl f"
    by (rule addFile_present) (simp add: files)
  have uniq: "distinct (map fc_path (cl_files cl))
                \<longrightarrow> distinct (map fc_path (cl_files (addFile now cl f)))"
    using assms by (simp add: files)
  have len: "length (cl_files (addFile now' (addFile now cl f) f)) = length (cl_files (addFile now cl f))"
    by (simp only: again)
  from once again len uniq show ?thesis by blast
qed

theorem addFile_new_file_once_witness:
  "fc_path \<lparr>fc_path = ''/w/b.ts'', fc_relativePath = ''b.ts'', fc_status = Modified,
             fc_isStaged = False, fc_isSelected = False, fc_originalPath = None\<rparr>
     \<notin> fc_path ` set (cl_files (createDefault 0))
   \<and> count_list
        (cl_files (addFile 1 (createDefault 0)
           \<lparr>fc_path = ''/w/b.ts'', fc_relativePath = ''b.ts'', fc_status = Modified,
            fc_isStaged = False, fc_isSelected = False, fc_originalPath = None\<rparr>))
        \<lparr>fc_path = ''/w/b.ts'', fc_relativePath = ''b.ts'', fc_status = Modified,
         fc_isStaged = False, fc_isSelected = False, fc_originalPath = None\<rparr> = 1"
  using addFile_new_file_once [of
      "\<lparr>fc_path = ''/w/b.ts'', fc_relativePath = ''b.ts'', fc_status = Modified,
        fc_isStaged = False, fc_isSelected = False, fc_originalPath = None\<rparr>"
      "createDefault 0" 1 2]
  by (simp add: createDefault_def)

text \<open>
  Claim C10. For every store, every list of paths and every id, present in the store or
  not, \<^verbatim>\<open>moveFiles(paths, id, id)\<close> returns normally and the store it leaves (every
  changelist and the active-changelist pointer) is the store it was given.
\<close>

theorem moveFiles_same_id_noop: "moveFiles now filePaths ident ident s = Inr s"
  by (simp add: moveFiles_def)

lemma canRestore_original: "canRestore sf (originalContent sf)"
  by (simp add: canRestore_def)

lemma detectConflicts_original: "detectConflicts sf (originalContent sf) = []"
  by (simp add: detectConflicts_def canRestore_def)

lemma detectConflicts_example:
  "detectConflicts
      \<lparr>sf_path = p, sf_relativePath = r,
       originalContent = [CHR ''a'', NL, CHR ''b'', NL, CHR ''c''],
       shelvedContent = [CHR ''a'', NL, CHR ''X'', NL, CHR ''c''],
       sf_status = st, encoding = enc\<rparr>
      [CHR ''a'', NL, CHR ''Y'', NL, CHR ''c'']
     = [''Line 2: conflicting changes'']"
  by code_simp

text \<open>
  Claim C7. With original content \<^verbatim>\<open>a\nb\nc\<close> and shelved content \<^verbatim>\<open>a\nX\nc\<close>,
  \<^verbatim>\<open>detectConflicts("a\nY\nc")\<close> reports exactly one conflict, the one of line 2; and for
  every shelved file, a current content equal to its original content makes
  \<^verbatim>\<open>canRestore\<close> true and \<^verbatim>\<open>detectConflicts\<close> empty.
\<close>

theorem detectConflicts_example_and_identity:
  "detectConflicts
      \<lparr>sf_path = p, sf_relativePath = r,
       originalContent = [CHR ''a'', NL, CHR ''b'', NL, CHR ''c''],
       shelvedContent = [CHR ''a'', NL, CHR ''X'', NL, CHR ''c''],
       sf_status = st, encoding = enc\<rparr>
      [CHR ''a'', NL, CHR ''Y'', NL, CHR ''c'']
     = [''Line 2: conflicting changes'']
   \<and> (currentContent = originalContent sf
        \<longrightarrow> canRestore sf currentContent \<and> detectConflicts sf currentContent = [])"
  using detectConflicts_example [of p r st enc] detectConflicts_original [of sf]
    canRestore_original [of sf] by blast


theorem detectConflicts_example_and_identity_witness:
  "''same'' = originalContent
       \<lparr>sf_path = ''/w/a.ts'', sf_relativePath = ''a.ts'', originalContent = ''same'',
        shelvedContent = ''other'', sf_status = Modified, encoding = ''utf8''\<rparr>
   \<and> canRestore
       \<lparr>sf_path = ''/w/a.ts'', sf_relativePath = ''a.ts'', originalContent = ''same'',
        shelvedContent = ''other'', sf_status = Modified, encoding = ''utf8''\<rparr> ''same''
   \<and> detectConflicts
       \<lparr>sf_path = ''/w/a.ts'', sf_relativePath = ''a.ts'', originalContent = ''same'',
        shelvedContent = ''other'', sf_status = Modified, encoding = ''utf8''\<rparr> ''same'' = []"
  using detectConflicts_example_and_identity [where currentContent = "''same''" and sf =
      "\<lparr>sf_path = ''/w/a.ts'', sf_relativePath = ''a.ts'', originalContent = ''same'',
        shelvedContent = ''other'', sf_status = Modified, encoding = ''utf8''\<rparr>"]
  by simp

section \<open>Deleting changelists and the active flag\<close>

text \<open>
  The store is created with a default changelist, and no operation removes the entry
  stored under \<^verbatim>\<open>'default'\<close>.
\<close>

lemma newStore_has_default: "map_of (changelists (newStore now)) ''default'' \<noteq> None"
  by (simp add: newStore_def)

lemma createChangelist_keeps_default:
  "map_of (changelists s) ''default'' \<noteq> None \<Longrightarrow> createChangelist now newId name descr s = Inr s'
     \<Longrightarrow> map_of (changelists s') ''default'' \<noteq> None"
  by (auto simp: createChangelist_def update_conv' split: if_splits)

lemma deleteChangelist_keeps_default:
  "map_of (changelists s) ''default'' \<noteq> None \<Longrightarrow> deleteChangelist now ident s = Inr s'
     \<Longrightarrow> map_of (changelists s') ''default'' \<noteq> None"
  by (auto simp: deleteChangelist_def update_conv' delete_conv' split: if_splits option.splits)

lemma renameChangelist_keeps_default:
  "map_of (changelists s) ''default'' \<noteq> None \<Longrightarrow> renameChangelist now ident newName s = Inr s'
     \<Longrightarrow> map_of (changelists s') ''default'' \<noteq> None"
  by (auto simp: renameChangelist_def update_conv' split: if_splits option.splits)

lemma moveFiles_keeps_default:
  "map_of (changelists s) ''default'' \<noteq> None \<Longrightarrow> moveFiles now paths fromId toId s = Inr s'
     \<Longrightarrow> map_of (changelists s') ''default'' \<noteq> None"
  by (auto simp: moveFiles_def update_conv' Let_def split: if_splits option.splits)

lemma addFileToChangelist_keeps_default:
  "map_of (changelists s) ''default'' \<noteq> None \<Longrightarrow> addFileToChangelist now f ident s = Inr s'
     \<Longrightarrow> map_of (changelists s') ''default'' \<noteq> None"
  by (auto simp: addFileToChangelist_def update_conv' split: option.splits)

lemma removeFileFromChangelist_keeps_default:
  "map_of (changelists s) ''default'' \<noteq> None \<Longrightarrow> removeFileFromChangelist now f ident s = Inr s'
     \<Longrightarrow> map_of (changelists s') ''default'' \<noteq> None"
  by (auto simp: removeFileFromChangelist_def update_conv' split: option.splits)

lemma updateChangelist_keeps_default:
  "map_of (changelists s) ''default'' \<noteq> None \<Longrightarrow> updateChangelist ident updater s = Inr s'
     \<Longrightarrow> map_of (changelists s') ''default'' \<noteq> None"
  by (auto simp: updateChangelist_def update_conv' split: option.splits)

lemma map_of_map_entries:
  "map_of (map (\<lambda>(k, v). (k, f k v)) al) k = map_option (f k) (map_of al k)"
  by (induction al) auto

lemma setActiveChangelist_keeps_default:
  "map_of (changelists s) ''default'' \<noteq> None \<Longrightarrow> setActiveChangelist now ident s = Inr s'
     \<Longrightarrow> map_of (changelists s') ''default'' \<noteq> None"
  by (auto simp: setActiveChangelist_def map_of_map_entries split: if_splits)

lemma set_update_subset: "set (AList.update k v al) \<subseteq> insert (k, v) (set al)"
  by (induction al) auto

lemma set_delete_eq: "set (AList.delete k al) = {p \<in> set al. fst p \<noteq> k}"
  by (auto simp: AList.delete_eq)

lemma deleteChangelist_default: "deleteChangelist now ''default'' s = Inl CannotDeleteDefault"
  by (simp add: deleteChangelist_def)

lemma deleteChangelist_result:
  assumes "ident \<noteq> ''default''" and "map_of (changelists s) ident = Some cl"
    and "map_of (changelists s) ''default'' = Some d"
  shows "deleteChangelist now ident s =
           Inr \<lparr>changelists =
                  AList.delete ident
                    (AList.update ''default'' (foldl (addFile now) d (cl_files cl)) (changelists s)),
                activeChangelistId =
                  (if activeChangelistId s = ident then ''default'' else activeChangelistId s)\<rparr>"
proof (cases "hasFiles cl")
  case True
  then show ?thesis using assms by (simp add: deleteChangelist_def)
next
  case False
  then have "cl_files cl = []" by (simp add: hasFiles_def)
  then have "foldl (addFile now) d (cl_files cl) = d" by simp
  then have "AList.update ''default'' (foldl (addFile now) d (cl_files cl)) (changelists s) = changelists s"
    using assms(3) by (simp add: update_triv)
  then show ?thesis using assms False by (simp add: deleteChangelist_def)
qed

lemma deleted_id_not_among_values:
  assumes keyed: "list_all (\<lambda>(k, c). cl_id c = k) al" and "cl_id v = k0" and "k0 \<noteq> ident"
  shows "ident \<notin> cl_id ` set (map snd (AList.delete ident (AList.update k0 v al)))"
proof
  assume "ident \<in> cl_id ` set (map snd (AList.delete ident (AList.update k0 v al)))"
  then obtain k c where kc: "(k, c) \<in> set (AList.delete ident (AList.update k0 v al))"
    and c: "cl_id c = ident"
    by auto
  from kc have "k \<noteq> ident" and "(k, c) \<in> set (AList.update k0 v al)"
    by (auto simp: set_delete_eq)
  then have "(k, c) = (k0, v) \<or> (k, c) \<in> set al"
    using set_update_subset [of k0 v al] by blast
  then show False
  proof
    assume "(k, c) = (k0, v)"
    with assms(2,3) c show False by simp
  next
    assume "(k, c) \<in> set al"
    with keyed have "cl_id c = k" by (auto simp: list_all_iff)
    with c \<open>k \<noteq> ident\<close> show False by simp
  qed
qed

text \<open>
  What the reduce over \<^verbatim>\<open>addFile\<close> does to the default changelist: it keeps the files it
  had, in place, appends files of the deleted changelist, ends with exactly the paths of
  both, and touches no other field than the file list and the modification date.
\<close>

lemma foldl_addFile_extends:
  "\<exists>moved. cl_files (foldl (addFile now) cl fs) = cl_files cl @ moved \<and> set moved \<subseteq> set fs"
proof (induction fs arbitrary: cl)
  case Nil
  show ?case by simp
next
  case (Cons f fs)
  from Cons.IH [of "addFile now cl f"] obtain moved where
    m: "cl_files (foldl (addFile now) (addFile now cl f) fs) = cl_files (addFile now cl f) @ moved"
    and sub: "set moved \<subseteq> set fs"
    by blast
  show ?case
  proof (cases "fc_path f \<in> fc_path ` set (cl_files cl)")
    case True
    then have "addFile now cl f = cl" by (rule addFile_present)
    with m sub show ?thesis by auto
  next
    case False
    then have "cl_files (addFile now cl f) = cl_files cl @ [f]" by (rule addFile_absent)
    with m have "cl_files (foldl (addFile now) cl (f # fs)) = cl_files cl @ (f # moved)" by simp
    moreover from sub have "set (f # moved) \<subseteq> set (f # fs)" by auto
    ultimately show ?thesis by blast
  qed
qed

lemma addFile_paths:
  "fc_path ` set (cl_files (addFile now cl f)) = insert (fc_path f) (fc_path ` set (cl_files cl))"
proof (cases "fc_path f \<in> fc_path ` set (cl_files cl)")
  case True
  then show ?thesis by (auto simp: addFile_present)
next
  case False
  then show ?thesis by (simp add: addFile_absent)
qed

lemma foldl_addFile_paths:
  "fc_path ` set (cl_files (foldl (addFile now) cl fs))
     = fc_path ` set (cl_files cl) \<union> fc_path ` set fs"
  by (induction fs arbitrary: cl) (auto simp: addFile_paths)

lemma foldl_addFile_all_new:
  "distinct (map fc_path fs) \<Longrightarrow> fc_path ` set fs \<inter> fc_path ` set (cl_files cl) = {} \<Longrightarrow>
     cl_files (foldl (addFile now) cl fs) = cl_files cl @ fs"
proof (induction fs arbitrary: cl)
  case Nil
  show ?case by simp
next
  case (Cons f fs)
  from Cons.prems(2) have nf: "fc_path f \<notin> fc_path ` set (cl_files cl)" by auto
  then have step: "cl_files (addFile now cl f) = cl_files cl @ [f]" by (rule addFile_absent)
  from Cons.prems have "fc_path ` set fs \<inter> fc_path ` set (cl_files (addFile now cl f)) = {}"
    by (auto simp: step)
  with Cons.prems(1) have "cl_files (foldl (addFile now) (addFile now cl f) fs)
      = cl_files (addFile now cl f) @ fs"
    by (intro Cons.IH) simp_all
  then show ?case by (simp add: step)
qed

lemma addFile_other_fields:
  "(addFile now cl f)\<lparr>cl_files := fs', cl_modifiedAt := t\<rparr> = cl\<lparr>cl_files := fs', cl_modifiedAt := t\<rparr>"
  by (simp add: addFile_def)

lemma foldl_addFile_other_fields:
  "(foldl (addFile now) cl fs)\<lparr>cl_files := fs', cl_modifiedAt := t\<rparr>
     = cl\<lparr>cl_files := fs', cl_modifiedAt := t\<rparr>"
  by (induction fs arbitrary: cl) (simp_all add: addFile_other_fields)

lemma foldl_addFile_distinct_paths:
  "distinct (map fc_path (cl_files cl)) \<Longrightarrow>
     distinct (map fc_path (cl_files (foldl (addFile now) cl fs)))"
proof (induction fs arbitrary: cl)
  case Nil
  then show ?case by simp
next
  case (Cons f fs)
  have "distinct (map fc_path (cl_files (addFile now cl f)))"
  proof (cases "fc_path f \<in> fc_path ` set (cl_files cl)")
    case True
    with Cons.prems show ?thesis by (simp add: addFile_present)
  next
    case False
    with Cons.prems show ?thesis by (simp add: addFile_absent)
  qed
  then show ?case by (simp add: Cons.IH)
qed

text \<open>
  Every operation of the store keeps changelists stored under their own id;
  \<^verbatim>\<open>updateChangelist\<close> does when its updater keeps the id.
\<close>

lemma list_all_update:
  "P (k, v) \<Longrightarrow> list_all P al \<Longrightarrow> list_all P (AList.update k v al)"
  using set_update_subset [of k v al] by (auto simp: list_all_iff)

lemma list_all_delete: "list_all P al \<Longrightarrow> list_all P (AList.delete k al)"
  by (auto simp: list_all_iff set_delete_eq)

lemma keyedById_lookup:
  "keyedById s \<Longrightarrow> map_of (changelists s) k = Some c \<Longrightarrow> cl_id c = k"
  by (auto simp: keyedById_def list_all_iff dest!: map_of_SomeD)

lemma removeFile_id [simp]: "cl_id (removeFile now cl p) = cl_id cl"
  by (simp add: removeFile_def Let_def)

lemma foldl_removeFile_id [simp]:
  "cl_id (foldl (\<lambda>cl f. removeFile now cl (fc_path f)) cl fs) = cl_id cl"
  by (induction fs arbitrary: cl) simp_all

lemma rename_id [simp]: "cl_id (rename now cl n) = cl_id cl"
  by (simp add: rename_def)

lemma setActive_id [simp]: "cl_id (setActive now cl b) = cl_id cl"
  by (simp add: setActive_def)

lemma newStore_keyedById: "keyedById (newStore now)"
  by (simp add: keyedById_def newStore_def createDefault_def)

lemma keyedById_update:
  "keyedById s \<Longrightarrow> cl_id v = k \<Longrightarrow> keyedById (s\<lparr>changelists := AList.update k v (changelists s)\<rparr>)"
  by (simp add: keyedById_def list_all_update)

lemma createChangelist_keyedById:
  "keyedById s \<Longrightarrow> createChangelist now newId name descr s = Inr s' \<Longrightarrow> keyedById s'"
  by (auto simp: createChangelist_def split: if_splits intro!: keyedById_update)

lemma deleteChangelist_keyedById:
  assumes "keyedById s" and "deleteChangelist now ident s = Inr s'"
  shows "keyedById s'"
proof -
  have upd: "list_all (\<lambda>(k, c). cl_id c = k)
               (AList.update ''default'' (foldl (addFile now) d fs) (changelists s))"
    if "map_of (changelists s) ''default'' = Some d" for d fs
    using assms(1) keyedById_lookup [OF assms(1) that]
    by (auto simp: keyedById_def intro!: list_all_update)
  from assms show ?thesis
    by (auto simp: deleteChangelist_def keyedById_def upd
        split: if_splits option.splits intro!: list_all_delete)
qed

lemma renameChangelist_keyedById:
  assumes "keyedById s" and "renameChangelist now ident newName s = Inr s'"
  shows "keyedById s'"
  using assms keyedById_lookup [OF assms(1)]
  by (auto simp: renameChangelist_def split: if_splits option.splits intro!: keyedById_update)

lemma moveFiles_keyedById:
  assumes "keyedById s" and "moveFiles now paths fromId toId s = Inr s'"
  shows "keyedById s'"
proof -
  have two: "keyedById (s\<lparr>changelists := AList.update toId b (AList.update fromId a (changelists s))\<rparr>)"
    if "cl_id a = fromId" and "cl_id b = toId" for a b
    using assms(1) that by (auto simp: keyedById_def intro!: list_all_update)
  from assms keyedById_lookup [OF assms(1)] show ?thesis
    by (auto simp: moveFiles_def Let_def split: if_splits option.splits intro!: two)
qed

lemma addFileToChangelist_keyedById:
  assumes "keyedById s" and "addFileToChangelist now f ident s = Inr s'"
  shows "keyedById s'"
  using assms keyedById_lookup [OF assms(1)]
  by (auto simp: addFileToChangelist_def split: option.splits intro!: keyedById_update)

lemma removeFileFromChangelist_keyedById:
  assumes "keyedById s" and "removeFileFromChangelist now f ident s = Inr s'"
  shows "keyedById s'"
  using assms keyedById_lookup [OF assms(1)]
  by (auto simp: removeFileFromChangelist_def split: option.splits intro!: keyedById_update)

lemma keyed_map_setActive:
  "list_all (\<lambda>(k, c). cl_id c = k) al \<Longrightarrow>
     list_all (\<lambda>(k, c). cl_id c = k)
       (map (\<lambda>(k, c). (k, if cl_isActive c \<noteq> (k = ident) then setActive now c (k = ident) else c)) al)"
  by (induction al) auto

lemma setActiveChangelist_keyedById:
  "keyedById s \<Longrightarrow> setActiveChangelist now ident s = Inr s' \<Longrightarrow> keyedById s'"
  using keyed_map_setActive [of "changelists s" ident now]
  by (auto simp: setActiveChangelist_def keyedById_def split: if_splits)

lemma updateChangelist_keyedById:
  assumes "keyedById s" and "\<And>c. cl_id (updater c) = cl_id c"
    and "updateChangelist ident updater s = Inr s'"
  shows "keyedById s'"
  using assms keyedById_lookup [OF assms(1)]
  by (auto simp: updateChangelist_def split: option.splits intro!: keyedById_update)

text \<open>
  Claim C8. \<^verbatim>\<open>deleteChangelist('default')\<close> throws in every store. For an id other than
  \<^verbatim>\<open>'default'\<close> that the store holds, in a store that holds its default changelist,
  \<^verbatim>\<open>deleteChangelist(id)\<close> succeeds. The default changelist keeps its files and gets files
  of the deleted changelist appended, so that its paths are those it had together with those
  of the deleted changelist, and nothing else of it changes but the modification date. Its
  file count does not drop and grows by at most the number of files of the deleted
  changelist: by less when one of their paths was already in the default changelist, and by
  exactly that number when their paths are distinct and none was there. The id is no longer
  a key of the store, every other changelist is as it was, and the active pointer moves to
  \<^verbatim>\<open>'default'\<close> if it was on the deleted id. When every changelist is stored under its own
  id, that still holds afterwards and no changelist of \<^verbatim>\<open>getAllChangelists()\<close> has the
  deleted id.
\<close>

theorem deleteChangelist_moves_files_to_default:
  "deleteChangelist now ''default'' s = Inl CannotDeleteDefault
   \<and> (ident \<noteq> ''default'' \<and> map_of (changelists s) ident = Some cl
        \<and> map_of (changelists s) ''default'' = Some d
      \<longrightarrow> (\<exists>s' d' moved. deleteChangelist now ident s = Inr s'
             \<and> map_of (changelists s') ''default'' = Some d'
             \<and> cl_files d' = cl_files d @ moved \<and> set moved \<subseteq> set (cl_files cl)
             \<and> fc_path ` set (cl_files d') = fc_path ` set (cl_files d) \<union> fc_path ` set (cl_files cl)
             \<and> d'\<lparr>cl_files := cl_files d, cl_modifiedAt := cl_modifiedAt d\<rparr> = d
             \<and> fileCount d \<le> fileCount d'
             \<and> fileCount d' \<le> fileCount d + fileCount cl
             \<and> ((\<exists>f \<in> set (cl_files cl). fc_path f \<in> fc_path ` set (cl_files d))
                  \<longrightarrow> fileCount d' < fileCount d + fileCount cl)
             \<and> (distinct (map fc_path (cl_files cl))
                  \<and> fc_path ` set (cl_files cl) \<inter> fc_path ` set (cl_files d) = {}
                  \<longrightarrow> cl_files d' = cl_files d @ cl_files cl)
             \<and> map_of (changelists s') ident = None
             \<and> (\<forall>k. k \<noteq> ident \<and> k \<noteq> ''default''
                  \<longrightarrow> map_of (changelists s') k = map_of (changelists s) k)
             \<and> activeChangelistId s'
                 = (if activeChangelistId s = ident then ''default'' else activeChangelistId s)
             \<and> (keyedById s
                  \<longrightarrow> keyedById s' \<and> ident \<notin> cl_id ` set (getAllChangelists s'))))"
proof (intro conjI impI)
  show "deleteChangelist now ''default'' s = Inl CannotDeleteDefault"
    by (rule deleteChangelist_default)
next
  assume h: "ident \<noteq> ''default'' \<and> map_of (changelists s) ident = Some cl
        \<and> map_of (changelists s) ''default'' = Some d"
  define d' where "d' = foldl (addFile now) d (cl_files cl)"
  define s' where "s' = \<lparr>changelists = AList.delete ident (AList.update ''default'' d' (changelists s)),
                activeChangelistId =
                  (if activeChangelistId s = ident then ''default'' else activeChangelistId s)\<rparr>"
  obtain moved where moved: "cl_files d' = cl_files d @ moved" "set moved \<subseteq> set (cl_files cl)"
    using foldl_addFile_extends [of now d "cl_files cl"] unfolding d'_def by blast
  have run: "deleteChangelist now ident s = Inr s'"
    using h deleteChangelist_result [of ident s cl d now] by (simp add: s'_def d'_def)
  have dflt: "map_of (changelists s') ''default'' = Some d'"
    using h by (auto simp: s'_def update_conv' delete_conv')
  have paths: "fc_path ` set (cl_files d') = fc_path ` set (cl_files d) \<union> fc_path ` set (cl_files cl)"
    unfolding d'_def by (rule foldl_addFile_paths)
  have fields: "d'\<lparr>cl_files := cl_files d, cl_modifiedAt := cl_modifiedAt d\<rparr> = d"
    unfolding d'_def by (simp add: foldl_addFile_other_fields)
  have ge: "fileCount d \<le> fileCount d'"
    by (simp add: fileCount_def moved(1))
  have le: "fileCount d' \<le> fileCount d + fileCount cl"
    unfolding fileCount_def d'_def by (rule foldl_addFile_length_le)
  have less: "(\<exists>f \<in> set (cl_files cl). fc_path f \<in> fc_path ` set (cl_files d))
                  \<longrightarrow> fileCount d' < fileCount d + fileCount cl"
    unfolding fileCount_def d'_def using foldl_addFile_length_less by blast
  have allnew: "distinct (map fc_path (cl_files cl))
                  \<and> fc_path ` set (cl_files cl) \<inter> fc_path ` set (cl_files d) = {}
                  \<longrightarrow> cl_files d' = cl_files d @ cl_files cl"
    unfolding d'_def using foldl_addFile_all_new by blast
  have gone: "map_of (changelists s') ident = None"
    by (simp add: s'_def delete_conv')
  have others: "\<forall>k. k \<noteq> ident \<and> k \<noteq> ''default''
                  \<longrightarrow> map_of (changelists s') k = map_of (changelists s) k"
    by (simp add: s'_def delete_conv' update_conv')
  have active: "activeChangelistId s'
                 = (if activeChangelistId s = ident then ''default'' else activeChangelistId s)"
    by (simp add: s'_def)
  have vals: "keyedById s \<longrightarrow> keyedById s' \<and> ident \<notin> cl_id ` set (getAllChangelists s')"
  proof
    assume keyed: "keyedById s"
    from keyed h have "cl_id d = ''default''"
      by (simp add: keyedById_lookup)
    then have idd: "cl_id d' = ''default''"
      by (simp add: d'_def)
    from h have ne: "''default'' \<noteq> ident" by auto
    from keyed have keyed': "list_all (\<lambda>(k, c). cl_id c = k) (changelists s)"
      by (simp add: keyedById_def)
    have "ident \<notin> cl_id ` set (map snd (AList.delete ident (AList.update ''default'' d' (changelists s))))"
      using keyed' idd ne by (rule deleted_id_not_among_values)
    then have "ident \<notin> cl_id ` set (getAllChangelists s')"
      by (simp add: getAllChangelists_def s'_def)
    moreover have "keyedById s'"
      using keyed run by (rule deleteChangelist_keyedById)
    ultimately show "keyedById s' \<and> ident \<notin> cl_id ` set (getAllChangelists s')"
      by simp
  qed
  from run dflt moved paths fields ge le less allnew gone others active vals
  show "\<exists>s' d' moved. deleteChangelist now ident s = Inr s'
             \<and> map_of (changelists s') ''default'' = Some d'
             \<and> cl_files d' = cl_files d @ moved \<and> set moved \<subseteq> set (cl_files cl)
             \<and> fc_path ` set (cl_files d') = fc_path ` set (cl_files d) \<union> fc_path ` set (cl_files cl)
             \<and> d'\<lparr>cl_files := cl_files d, cl_modifiedAt := cl_modifiedAt d\<rparr> = d
             \<and> fileCount d \<le> fileCount d'
             \<and> fileCount d' \<le> fileCount d + fileCount cl
             \<and> ((\<exists>f \<in> set (cl_files cl). fc_path f \<in> fc_path ` set (cl_files d))
                  \<longrightarrow> fileCount d' < fileCount d + fileCount cl)
             \<and> (distinct (map fc_path (cl_files cl))
                  \<and> fc_path ` set (cl_files cl) \<inter> fc_path ` set (cl_files d) = {}
                  \<longrightarrow> cl_files d' = cl_files d @ cl_files cl)
             \<and> map_of (changelists s') ident = None
             \<and> (\<forall>k. k \<noteq> ident \<and> k \<noteq> ''default''
                  \<longrightarrow> map_of (changelists s') k = map_of (changelists s) k)
             \<and> activeChangelistId s'
                 = (if activeChangelistId s = ident then ''default'' else activeChangelistId s)
             \<and> (keyedById s
                  \<longrightarrow> keyedById s' \<and> ident \<notin> cl_id ` set (getAllChangelists s'))"
    by blast
qed

text \<open>
  \<^verbatim>\<open>setActiveChangelist\<close>, the sibling of \<^verbatim>\<open>deleteChangelist\<close>, sets the flags together
  with the pointer: after it exactly one changelist is flagged active.
\<close>

lemma setActive_flag: "cl_isActive (setActive now cl b) = b"
  by (simp add: setActive_def)

lemma setActiveChangelist_exactly_one_active:
  assumes dist: "distinct (map fst (changelists s))"
    and run: "setActiveChangelist now ident s = Inr s'"
  shows "activeCount s' = 1"
proof -
  from run have present: "map_of (changelists s) ident \<noteq> None"
    by (auto simp: setActiveChangelist_def split: if_splits)
  then have mem: "ident \<in> set (map fst (changelists s))"
    by (simp add: map_of_eq_None_iff)
  from run present have "getAllChangelists s' =
      map (\<lambda>(k, c). if cl_isActive c \<noteq> (k = ident) then setActive now c (k = ident) else c)
        (changelists s)"
    by (auto simp: setActiveChangelist_def getAllChangelists_def split: if_splits)
  then have "filter cl_isActive (getAllChangelists s') =
      map (\<lambda>(k, c). if cl_isActive c \<noteq> (k = ident) then setActive now c (k = ident) else c)
        (filter (\<lambda>p. fst p = ident) (changelists s))"
    by (auto simp: filter_map comp_def case_prod_unfold setActive_flag intro!: arg_cong [where f = "map _"] filter_cong)
  then have "activeCount s' = length (filter (\<lambda>k. k = ident) (map fst (changelists s)))"
    by (simp add: activeCount_def filter_map comp_def)
  also have "\<dots> = card ({k. k = ident} \<inter> set (map fst (changelists s)))"
    using dist by (rule distinct_length_filter)
  also have "{k. k = ident} \<inter> set (map fst (changelists s)) = {ident}"
    using mem by auto
  finally show ?thesis by simp
qed

theorem deleteChangelist_moves_files_to_default_witness:
  "let fa = \<lparr>fc_path = ''/w/a.ts'', fc_relativePath = ''a.ts'', fc_status = Modified,
             fc_isStaged = False, fc_isSelected = False, fc_originalPath = None\<rparr>;
       fb = \<lparr>fc_path = ''/w/b.ts'', fc_relativePath = ''b.ts'', fc_status = Added,
             fc_isStaged = False, fc_isSelected = False, fc_originalPath = None\<rparr>;
       d = (createDefault 0)\<lparr>cl_files := [fa]\<rparr>;
       cl = \<lparr>cl_id = ''changelist_1_q'', cl_name = ''Feature'', cl_files = [fa, fb],
             cl_isDefault = False, cl_isActive = False, cl_description = None,
             cl_createdAt = 1, cl_modifiedAt = 2\<rparr>;
       other = \<lparr>cl_id = ''changelist_2_r'', cl_name = ''Other'', cl_files = [fb],
             cl_isDefault = False, cl_isActive = False, cl_description = None,
             cl_createdAt = 1, cl_modifiedAt = 2\<rparr>;
       s = \<lparr>changelists = [(''default'', d), (''changelist_1_q'', cl), (''changelist_2_r'', other)],
            activeChangelistId = ''changelist_1_q''\<rparr>
   in ''changelist_1_q'' \<noteq> ''default''
      \<and> map_of (changelists s) ''changelist_1_q'' = Some cl
      \<and> map_of (changelists s) ''default'' = Some d
      \<and> (\<exists>f \<in> set (cl_files cl). fc_path f \<in> fc_path ` set (cl_files d))
      \<and> keyedById s
      \<and> (\<exists>s' d'. deleteChangelist 3 ''changelist_1_q'' s = Inr s'
             \<and> map_of (changelists s') ''default'' = Some d'
             \<and> cl_files d' = [fa, fb]
             \<and> fileCount d \<le> fileCount d'
             \<and> fileCount d' < fileCount d + fileCount cl
             \<and> map_of (changelists s') ''changelist_1_q'' = None
             \<and> map_of (changelists s') ''changelist_2_r'' = Some other
             \<and> activeChangelistId s' = ''default''
             \<and> ''changelist_1_q'' \<notin> cl_id ` set (getAllChangelists s'))"
proof -
  let ?fa = "\<lparr>fc_path = ''/w/a.ts'', fc_relativePath = ''a.ts'', fc_status = Modified,
             fc_isStaged = False, fc_isSelected = False, fc_originalPath = None\<rparr>"
  let ?fb = "\<lparr>fc_path = ''/w/b.ts'', fc_relativePath = ''b.ts'', fc_status = Added,
             fc_isStaged = False, fc_isSelected = False, fc_originalPath = None\<rparr>"
  let ?d = "(createDefault 0)\<lparr>cl_files := [?fa]\<rparr>"
  let ?cl = "\<lparr>cl_id = ''changelist_1_q'', cl_name = ''Feature'', cl_files = [?fa, ?fb],
             cl_isDefault = False, cl_isActive = False, cl_description = None,
             cl_createdAt = 1, cl_modifiedAt = 2\<rparr>"
  let ?other = "\<lparr>cl_id = ''changelist_2_r'', cl_name = ''Other'', cl_files = [?fb],
             cl_isDefault = False, cl_isActive = False, cl_description = None,
             cl_createdAt = 1, cl_modifiedAt = 2\<rparr>"
  let ?s = "\<lparr>changelists = [(''default'', ?d), (''changelist_1_q'', ?cl), (''changelist_2_r'', ?other)],
            activeChangelistId = ''changelist_1_q''\<rparr>"
  have hyp: "''changelist_1_q'' \<noteq> ''default''
      \<and> map_of (changelists ?s) ''changelist_1_q'' = Some ?cl
      \<and> map_of (changelists ?s) ''default'' = Some ?d"
    by simp
  have dup: "\<exists>f \<in> set (cl_files ?cl). fc_path f \<in> fc_path ` set (cl_files ?d)"
    by simp
  have keyed: "keyedById ?s"
    by (simp add: keyedById_def createDefault_def)
  have oth: "map_of (changelists ?s) ''changelist_2_r'' = Some ?other"
    by simp
  from deleteChangelist_moves_files_to_default [of 3 ?s "''changelist_1_q''" ?cl ?d,
      THEN conjunct2, THEN mp, OF hyp]
  obtain s' d' moved where r: "deleteChangelist 3 ''changelist_1_q'' ?s = Inr s'"
      "map_of (changelists s') ''default'' = Some d'"
      "cl_files d' = cl_files ?d @ moved" "set moved \<subseteq> set (cl_files ?cl)"
      "fc_path ` set (cl_files d') = fc_path ` set (cl_files ?d) \<union> fc_path ` set (cl_files ?cl)"
      "fileCount ?d \<le> fileCount d'"
      "(\<exists>f \<in> set (cl_files ?cl). fc_path f \<in> fc_path ` set (cl_files ?d))
                  \<longrightarrow> fileCount d' < fileCount ?d + fileCount ?cl"
      "map_of (changelists s') ''changelist_1_q'' = None"
      "\<forall>k. k \<noteq> ''changelist_1_q'' \<and> k \<noteq> ''default''
                  \<longrightarrow> map_of (changelists s') k = map_of (changelists ?s) k"
      "activeChangelistId s'
                 = (if activeChangelistId ?s = ''changelist_1_q'' then ''default'' else activeChangelistId ?s)"
      "keyedById ?s \<longrightarrow> keyedById s' \<and> ''changelist_1_q'' \<notin> cl_id ` set (getAllChangelists s')"
    by (elim exE conjE) (rule that)
  have ev: "deleteChangelist 3 ''changelist_1_q'' ?s
      = Inr \<lparr>changelists = [(''default'', ?d\<lparr>cl_files := [?fa, ?fb], cl_modifiedAt := 3\<rparr>),
                              (''changelist_2_r'', ?other)],
             activeChangelistId = ''default''\<rparr>"
    by code_simp
  from r(1) ev r(2) have "d' = ?d\<lparr>cl_files := [?fa, ?fb], cl_modifiedAt := 3\<rparr>"
    by auto
  then have files: "cl_files d' = [?fa, ?fb]"
    by simp
  from r(9) have o2: "map_of (changelists s') ''changelist_2_r'' = map_of (changelists ?s) ''changelist_2_r''"
    by simp
  from r(10) have act: "activeChangelistId s' = ''default''"
    by simp
  from r(7) dup have lt: "fileCount d' < fileCount ?d + fileCount ?cl"
    by blast
  from r(11) keyed have absent: "''changelist_1_q'' \<notin> cl_id ` set (getAllChangelists s')"
    by blast
  from r(1) r(2) files r(6) lt r(8) o2 oth act absent
  have "\<exists>s' d'. deleteChangelist 3 ''changelist_1_q'' ?s = Inr s'
             \<and> map_of (changelists s') ''default'' = Some d'
             \<and> cl_files d' = [?fa, ?fb]
             \<and> fileCount ?d \<le> fileCount d'
             \<and> fileCount d' < fileCount ?d + fileCount ?cl
             \<and> map_of (changelists s') ''changelist_1_q'' = None
             \<and> map_of (changelists s') ''changelist_2_r'' = Some ?other
             \<and> activeChangelistId s' = ''default''
             \<and> ''changelist_1_q'' \<notin> cl_id ` set (getAllChangelists s')"
    by auto
  with hyp dup keyed show ?thesis
    unfolding Let_def by blast
qed

section \<open>Shelving, restoring and the store scenarios\<close>

lemma restoreFile_always_writes:
  "restoreFile sf force d = Inr (d(sf_path sf \<mapsto> shelvedContent sf))"
  by (simp add: restoreFile_def restoreFileTry_def split: option.split)

lemma unshelve_conflicts_write_nothing:
  assumes "previewUnshelve shelfId st = Inr report" and "hasConflicts report"
    and "\<not> forceMerge options"
  shows "\<exists>e. unshelve shelfId options st = Inl (e, st)"
  using assms by (auto simp: unshelve_def split: option.splits)

text \<open>
  Claim C1, evaluated at an input where the code departs from it. A file with content
  \<^verbatim>\<open>shelved text\<close> is shelved by \<^verbatim>\<open>createShelf\<close>, which records that content both as
  original and as shelved content. The file is then edited to \<^verbatim>\<open>later edits\<close>, so that
  \<^verbatim>\<open>canRestore\<close> is false for it, while \<^verbatim>\<open>previewUnshelve\<close> reports no conflict (same
  number of lines, no line changed on both sides). \<^verbatim>\<open>unshelve\<close> without
  \<^verbatim>\<open>forceMerge\<close> then returns normally, has written the shelved content over the edit and
  has removed the shelf.
\<close>

theorem unshelve_overwrites_edited_file:
  "(case createShelf True 7 ''shelf_7_ab'' ''WIP''
          [\<lparr>fc_path = ''/w/a.ts'', fc_relativePath = ''a.ts'', fc_status = Modified,
            fc_isStaged = False, fc_isSelected = False, fc_originalPath = None\<rparr>]
          \<lparr>removeFromWorkspace = False, includeUntracked = False, so_description = None\<rparr>
          \<lparr>shelves = [], files_on_disk = [''/w/a.ts'' \<mapsto> ''shelved text'']\<rparr> of
      Inl e \<Rightarrow> False
    | Inr (shelf, st) \<Rightarrow>
        map originalContent (sh_files shelf) = [''shelved text'']
      \<and> map shelvedContent (sh_files shelf) = [''shelved text'']
      \<and> list_all (\<lambda>sf. \<not> canRestore sf ''later edits'') (sh_files shelf)
      \<and> (case previewUnshelve ''shelf_7_ab''
                   (st\<lparr>files_on_disk := (files_on_disk st)(''/w/a.ts'' \<mapsto> ''later edits'')\<rparr>) of
             Inl e \<Rightarrow> False
           | Inr report \<Rightarrow> \<not> hasConflicts report)
      \<and> (case unshelve ''shelf_7_ab''
                   \<lparr>keepShelf = False, forceMerge = False, selectedFiles = None\<rparr>
                   (st\<lparr>files_on_disk := (files_on_disk st)(''/w/a.ts'' \<mapsto> ''later edits'')\<rparr>) of
             Inl e \<Rightarrow> False
           | Inr st' \<Rightarrow>
               shelves st' = [] \<and> files_on_disk st' ''/w/a.ts'' = Some ''shelved text''))"
  by code_simp

text \<open>
  Claim C2, evaluated at an input where the code departs from it. From the initial store,
  create a changelist, make it the active one and delete it: the one changelist left, the
  default one, has \<^verbatim>\<open>isActive\<close> false, so no changelist of \<^verbatim>\<open>getAllChangelists()\<close> is
  flagged active, although the active pointer is back on \<^verbatim>\<open>'default'\<close>.
\<close>

theorem deleting_active_changelist_leaves_none_active:
  "attempt (deleteChangelist 3 ''changelist_1_k3x'')
     (attempt (setActiveChangelist 2 ''changelist_1_k3x'')
        (attempt (createChangelist 1 ''changelist_1_k3x'' ''Feature'' None) (newStore 0)))
     = \<lparr>changelists = [(''default'', (createDefault 0)\<lparr>cl_isActive := False, cl_modifiedAt := 2\<rparr>)],
        activeChangelistId = ''default''\<rparr>
   \<and> activeCount
       (attempt (deleteChangelist 3 ''changelist_1_k3x'')
         (attempt (setActiveChangelist 2 ''changelist_1_k3x'')
           (attempt (createChangelist 1 ''changelist_1_k3x'' ''Feature'' None) (newStore 0)))) = 0"
  by code_simp

section \<open>Status classification, the diff example and the shelving baseline\<close>

text \<open>
  Claim C3, evaluated at inputs where the code departs from it. A path that is in both the
  conflicted and the modified bucket is classified by \<^verbatim>\<open>detectStatusWithGitProvider\<close> as
  Modified, and so is a path that is in both the staged and the modified bucket.
\<close>

theorem fallback_classifies_conflicted_as_modified:
  "detectStatusWithGitProvider
      (Some \<lparr>gs_untracked = [], gs_modified = [''src/a.ts''], gs_staged = [], gs_deleted = [],
             gs_added = [], gs_conflicted = [''src/a.ts'']\<rparr>) ''src/a.ts'' = FS_Modified
   \<and> detectStatusWithGitProvider
      (Some \<lparr>gs_untracked = [], gs_modified = [''src/b.ts''], gs_staged = [''src/b.ts''],
             gs_deleted = [], gs_added = [], gs_conflicted = []\<rparr>) ''src/b.ts'' = FS_Modified"
  by (simp add: detectStatusWithGitProvider_def)

text \<open>
  The branch of \<^verbatim>\<open>detectFileStatus\<close> that reads the editor's Git state tests the conflict
  collection first; the fallback tests the modified bucket before the conflicted one.
\<close>

lemma detectWithRepository_conflicted_first:
  "fsPath \<in> set (mergeChanges repo) \<Longrightarrow> detectWithRepository repo fsPath = Some FS_Conflicted"
  by (simp add: detectWithRepository_def)

lemma detectStatusWithGitProvider_modified_wins:
  "relativePath \<in> set (gs_modified status) \<Longrightarrow> relativePath \<notin> set (gs_untracked status) \<Longrightarrow>
     detectStatusWithGitProvider (Some status) relativePath = FS_Modified"
  by (simp add: detectStatusWithGitProvider_def)

text \<open>
  Claim C5 as stated: on the hunk \<^verbatim>\<open>@@ -1,3 +1,4 @@\<close> with the lines \<^verbatim>\<open> unchanged\<close>,
  \<^verbatim>\<open>-removed line\<close>, \<^verbatim>\<open>+added line\<close>, \<^verbatim>\<open>+second added\<close>, the parser does not yield
  a deleted range on line 1 followed by an added range on lines 2 to 3.
\<close>

theorem parseDiff_example_counterexample:
  "parseDiff (''@@ -1,3 +1,4 @@'' @ [NL] @ '' unchanged'' @ [NL] @ ''-removed line'' @ [NL]
              @ ''+added line'' @ [NL] @ ''+second added'')
     \<noteq> [\<lparr>lc_type = deleted, startLine = 1, endLine = 1\<rparr>,
         \<lparr>lc_type = added, startLine = 2, endLine = 3\<rparr>]"
  by code_simp

text \<open>
  Claim C5 as amended: on that input the parser yields a deleted range on line 0 followed
  by an added range on lines 1 to 2. The counter starts at \<open>c - 1 = 0\<close>, the context line
  moves it to 1, the deletion is anchored one line above it, and the two additions take
  lines 1 and 2.
\<close>

theorem parseDiff_example:
  "parseDiff (''@@ -1,3 +1,4 @@'' @ [NL] @ '' unchanged'' @ [NL] @ ''-removed line'' @ [NL]
              @ ''+added line'' @ [NL] @ ''+second added'')
     = [\<lparr>lc_type = deleted, startLine = 0, endLine = 0\<rparr>,
        \<lparr>lc_type = added, startLine = 1, endLine = 2\<rparr>]"
  by code_simp

text \<open>
  Claim C4. When the file of a file change is readable and has the same content at both
  reads of \<^verbatim>\<open>createShelvedFile\<close>, the shelved file is produced, its original content equals
  its shelved content (both are that content), and \<^verbatim>\<open>detectConflicts\<close> on that same
  content returns the empty list.
\<close>

theorem createShelvedFile_baseline_is_current:
  assumes "d1 (fc_path f) = Some content" and "d2 (fc_path f) = Some content"
  shows "\<exists>sf. createShelvedFile d1 d2 f = Inr sf
            \<and> shelvedContent sf = content
            \<and> originalContent sf = shelvedContent sf
            \<and> detectConflicts sf content = []"
  using assms
  by (simp add: createShelvedFile_def getOriginalContent_def detectConflicts_def canRestore_def)

theorem createShelvedFile_baseline_is_current_witness:
  "[''/w/a.ts'' \<mapsto> ''let x = 1''] (fc_path
        \<lparr>fc_path = ''/w/a.ts'', fc_relativePath = ''a.ts'', fc_status = Modified,
         fc_isStaged = False, fc_isSelected = False, fc_originalPath = None\<rparr>) = Some ''let x = 1''
   \<and> (\<exists>sf. createShelvedFile [''/w/a.ts'' \<mapsto> ''let x = 1''] [''/w/a.ts'' \<mapsto> ''let x = 1'']
        \<lparr>fc_path = ''/w/a.ts'', fc_relativePath = ''a.ts'', fc_status = Modified,
         fc_isStaged = False, fc_isSelected = False, fc_originalPath = None\<rparr> = Inr sf
      \<and> shelvedContent sf = ''let x = 1''
      \<and> originalContent sf = shelvedContent sf
      \<and> detectConflicts sf ''let x = 1'' = [])"
  using createShelvedFile_baseline_is_current [of "[''/w/a.ts'' \<mapsto> ''let x = 1'']"
      "\<lparr>fc_path = ''/w/a.ts'', fc_relativePath = ''a.ts'', fc_status = Modified,
         fc_isStaged = False, fc_isSelected = False, fc_originalPath = None\<rparr>"
      "''let x = 1''" "[''/w/a.ts'' \<mapsto> ''let x = 1'']"]
  by simp

section \<open>The contract of the diff parser\<close>

lemma keepsRanges_iff:
  "keepsRanges c1 c2 \<longleftrightarrow>
     length c1 \<le> length c2
     \<and> (\<forall>i < length c1. lc_type (c2 ! i) = lc_type (c1 ! i)
            \<and> startLine (c2 ! i) = startLine (c1 ! i)
            \<and> endLine (c1 ! i) \<le> endLine (c2 ! i)
            \<and> (Suc i < length c1 \<longrightarrow> c2 ! i = c1 ! i))"
  by (auto simp: keepsRanges_def list_all_iff)

lemma keepsRanges_refl: "keepsRanges c c"
  by (simp add: keepsRanges_iff)

lemma keepsRanges_trans:
  assumes "keepsRanges a b" and "keepsRanges b c"
  shows "keepsRanges a c"
  unfolding keepsRanges_iff
proof (intro conjI allI impI)
  show "length a \<le> length c"
    using assms by (simp add: keepsRanges_iff)
next
  fix i assume i: "i < length a"
  then have ib: "i < length b" using assms(1) by (simp add: keepsRanges_iff)
  show "lc_type (c ! i) = lc_type (a ! i)"
    using assms i ib by (simp add: keepsRanges_iff)
  show "startLine (c ! i) = startLine (a ! i)"
    using assms i ib by (simp add: keepsRanges_iff)
  have "endLine (a ! i) \<le> endLine (b ! i)" "endLine (b ! i) \<le> endLine (c ! i)"
    using assms i ib by (simp_all add: keepsRanges_iff)
  then show "endLine (a ! i) \<le> endLine (c ! i)" by simp
  assume si: "Suc i < length a"
  then have "Suc i < length b" using assms(1) by (simp add: keepsRanges_iff)
  then have "c ! i = b ! i" using assms(2) ib by (simp add: keepsRanges_iff)
  moreover have "b ! i = a ! i" using assms(1) i si by (simp add: keepsRanges_iff)
  ultimately show "c ! i = a ! i" by simp
qed

lemma keepsRanges_addOrExtendChange: "keepsRanges cs (addOrExtendChange cs ty n)"
proof (cases "cs \<noteq> [] \<and> lc_type (last cs) = ty \<and> endLine (last cs) = n - 1")
  case False
  then have "addOrExtendChange cs ty n = cs @ [\<lparr>lc_type = ty, startLine = n, endLine = n\<rparr>]"
    by (auto simp: addOrExtendChange_def)
  then show ?thesis
    by (simp add: keepsRanges_iff nth_append)
next
  case True
  then have eq: "addOrExtendChange cs ty n = butlast cs @ [(last cs)\<lparr>endLine := n\<rparr>]"
    by (simp add: addOrExtendChange_def)
  from True have ne: "cs \<noteq> []" by simp
  show ?thesis
    unfolding keepsRanges_iff eq
  proof (intro conjI allI impI)
    show "length cs \<le> length (butlast cs @ [(last cs)\<lparr>endLine := n\<rparr>])"
      using ne by simp
  next
    fix i assume i: "i < length cs"
    have nth: "(butlast cs @ [(last cs)\<lparr>endLine := n\<rparr>]) ! i
                 = (if i < length cs - 1 then cs ! i else (last cs)\<lparr>endLine := n\<rparr>)"
      using i by (auto simp: nth_append nth_butlast)
    have lastc: "cs ! i = last cs" if "\<not> i < length cs - 1"
    proof -
      from that i have "i = length cs - 1" by simp
      then show ?thesis using ne by (simp add: last_conv_nth)
    qed
    show "lc_type ((butlast cs @ [(last cs)\<lparr>endLine := n\<rparr>]) ! i) = lc_type (cs ! i)"
      using lastc by (simp add: nth)
    show "startLine ((butlast cs @ [(last cs)\<lparr>endLine := n\<rparr>]) ! i) = startLine (cs ! i)"
      using lastc by (simp add: nth)
    show "endLine (cs ! i) \<le> endLine ((butlast cs @ [(last cs)\<lparr>endLine := n\<rparr>]) ! i)"
      using lastc True by (simp add: nth)
    assume "Suc i < length cs"
    then show "(butlast cs @ [(last cs)\<lparr>endLine := n\<rparr>]) ! i = cs ! i"
      by (simp add: nth)
  qed
qed

lemma changes_parseLine:
  "changes (parseLine st l) = changes st
   \<or> (\<exists>ty n. changes (parseLine st l) = addOrExtendChange (changes st) ty n)"
  by (auto simp: parseLine_def split: option.splits)

lemma keepsRanges_parseLine: "keepsRanges (changes st) (changes (parseLine st l))"
  using changes_parseLine [of st l] keepsRanges_refl keepsRanges_addOrExtendChange by metis

lemma keepsRanges_parseLines: "keepsRanges (changes st) (changes (parseLines st ls))"
proof (induction ls arbitrary: st)
  case Nil
  show ?case by (simp add: parseLines_def keepsRanges_refl)
next
  case (Cons l ls)
  have "keepsRanges (changes st) (changes (parseLine st l))"
    by (rule keepsRanges_parseLine)
  moreover have "keepsRanges (changes (parseLine st l)) (changes (parseLines (parseLine st l) ls))"
    by (rule Cons.IH)
  ultimately have "keepsRanges (changes st) (changes (parseLines (parseLine st l) ls))"
    by (rule keepsRanges_trans)
  then show ?case
    by (simp add: parseLines_def)
qed

lemma parseLines_append: "parseLines st (xs @ ys) = parseLines (parseLines st xs) ys"
  by (simp add: parseLines_def)

lemma parseDiff_keeps_prefix_ranges:
  "splitLines diff = ls1 @ ls2 \<Longrightarrow>
     keepsRanges (changes (parseLines initialState ls1)) (parseDiff diff)"
  by (simp add: parseDiff_def parseLines_append keepsRanges_parseLines)

lemma parseLine_malformed_header:
  "startsWith l ''@@'' \<Longrightarrow> matchHunk l = None \<Longrightarrow> parseLine st l = st"
  by (simp add: parseLine_def)

lemma parseLine_outside_hunk:
  "\<not> inHunk st \<Longrightarrow> \<not> isHunkHeader l \<Longrightarrow> parseLine st l = st"
  by (auto simp: parseLine_def isHunkHeader_def split: option.splits)

lemma parseLines_no_header:
  "\<not> inHunk st \<Longrightarrow> list_all (\<lambda>l. \<not> isHunkHeader l) ls \<Longrightarrow> parseLines st ls = st"
  by (induction ls arbitrary: st) (simp_all add: parseLines_def parseLine_outside_hunk)

lemma parseDiff_no_header:
  "list_all (\<lambda>l. \<not> isHunkHeader l) (splitLines diff) \<Longrightarrow> parseDiff diff = []"
  by (simp add: parseDiff_def parseLines_no_header initialState_def)

lemma filter_snoc_last:
  "cs \<noteq> [] \<Longrightarrow> filter P cs = filter P (butlast cs) @ (if P (last cs) then [last cs] else [])"
  by (induction cs rule: rev_induct) simp_all

lemma added_after_deleted:
  "filter isAdded (addOrExtendChange cs deleted n) = filter isAdded cs"
proof (cases "cs \<noteq> [] \<and> lc_type (last cs) = deleted \<and> endLine (last cs) = n - 1")
  case True
  then have "filter isAdded cs = filter isAdded (butlast cs)"
    using filter_snoc_last [of cs isAdded] by (simp add: isAdded_def)
  with True show ?thesis
    by (simp add: addOrExtendChange_def isAdded_def)
next
  case False
  then show ?thesis
    by (auto simp: addOrExtendChange_def isAdded_def)
qed

lemma added_after_added:
  "(\<exists>xs r. filter isAdded cs = xs @ [r]
          \<and> filter isAdded (addOrExtendChange cs added n) = xs @ [r\<lparr>endLine := n\<rparr>])
   \<or> filter isAdded (addOrExtendChange cs added n)
       = filter isAdded cs @ [\<lparr>lc_type = added, startLine = n, endLine = n\<rparr>]"
proof (cases "cs \<noteq> [] \<and> lc_type (last cs) = added \<and> endLine (last cs) = n - 1")
  case True
  then have "filter isAdded cs = filter isAdded (butlast cs) @ [last cs]"
    using filter_snoc_last [of cs isAdded] by (simp add: isAdded_def)
  moreover from True have "filter isAdded (addOrExtendChange cs added n)
      = filter isAdded (butlast cs) @ [(last cs)\<lparr>endLine := n\<rparr>]"
    by (simp add: addOrExtendChange_def isAdded_def)
  ultimately show ?thesis by blast
next
  case False
  then have "addOrExtendChange cs added n = cs @ [\<lparr>lc_type = added, startLine = n, endLine = n\<rparr>]"
    by (auto simp: addOrExtendChange_def)
  then show ?thesis by (simp add: isAdded_def)
qed

lemma addedBelowCounter_added:
  assumes "addedBelowCounter st" and "inHunk st"
  shows "addedBelowCounter
           (st\<lparr>changes := addOrExtendChange (changes st) added (currentLine st),
               currentLine := currentLine st + 1\<rparr>)"
proof -
  let ?A = "filter isAdded (changes st)"
  let ?n = "currentLine st"
  from assms(1) have below: "\<forall>r \<in> set ?A. endLine r < ?n"
    and sorted: "sorted_wrt (\<lambda>a b. endLine a < startLine b) ?A"
    by (simp_all add: addedBelowCounter_def list_all_iff)
  from added_after_added [of "changes st" ?n]
  show ?thesis
  proof
    assume "\<exists>xs r. ?A = xs @ [r]
          \<and> filter isAdded (addOrExtendChange (changes st) added ?n) = xs @ [r\<lparr>endLine := ?n\<rparr>]"
    then obtain xs r where A: "?A = xs @ [r]"
      and A': "filter isAdded (addOrExtendChange (changes st) added ?n) = xs @ [r\<lparr>endLine := ?n\<rparr>]"
      by blast
    from below A have "\<forall>x \<in> set xs. endLine x < ?n + 1" by auto
    moreover from sorted A have "sorted_wrt (\<lambda>a b. endLine a < startLine b) (xs @ [r\<lparr>endLine := ?n\<rparr>])"
      by (simp add: sorted_wrt_append)
    ultimately show ?thesis
      using assms(2) by (simp add: addedBelowCounter_def A' list_all_iff)
  next
    assume A': "filter isAdded (addOrExtendChange (changes st) added ?n)
       = ?A @ [\<lparr>lc_type = added, startLine = ?n, endLine = ?n\<rparr>]"
    from below have "\<forall>x \<in> set ?A. endLine x < ?n + 1" by auto
    moreover from sorted below
    have "sorted_wrt (\<lambda>a b. endLine a < startLine b) (?A @ [\<lparr>lc_type = added, startLine = ?n, endLine = ?n\<rparr>])"
      by (simp add: sorted_wrt_append)
    ultimately show ?thesis
      using assms(2) by (simp add: addedBelowCounter_def A' list_all_iff)
  qed
qed

lemma addedBelowCounter_deleted:
  assumes "addedBelowCounter st" and "inHunk st"
  shows "addedBelowCounter (st\<lparr>changes := addOrExtendChange (changes st) deleted n\<rparr>)"
  using assms by (simp add: addedBelowCounter_def added_after_deleted)

lemma addedBelowCounter_counter:
  assumes "addedBelowCounter st" and "currentLine st \<le> n"
  shows "addedBelowCounter (st\<lparr>currentLine := n, inHunk := True\<rparr>)"
  using assms by (fastforce simp: addedBelowCounter_def list_all_iff)

lemma addedBelowCounter_first_hunk:
  assumes "addedBelowCounter st" and "\<not> inHunk st"
  shows "addedBelowCounter (st\<lparr>currentLine := n, inHunk := True\<rparr>)"
  using assms by (auto simp: addedBelowCounter_def)

lemma addedBelowCounter_parseLine:
  assumes inv: "addedBelowCounter st"
    and asc: "isHunkHeader l \<Longrightarrow> inHunk st \<Longrightarrow> currentLine st \<le> currentLine (parseLine st l)"
  shows "addedBelowCounter (parseLine st l)"
proof (cases "startsWith l ''@@''")
  case True
  show ?thesis
  proof (cases "matchHunk l")
    case None
    with True show ?thesis using inv by (simp add: parseLine_def)
  next
    case (Some g)
    with True have step: "parseLine st l = st\<lparr>currentLine := parseInt g - 1, inHunk := True\<rparr>"
      by (simp add: parseLine_def)
    show ?thesis
    proof (cases "inHunk st")
      case False
      with inv show ?thesis unfolding step by (rule addedBelowCounter_first_hunk)
    next
      case hunk: True
      from True Some have "isHunkHeader l" by (simp add: isHunkHeader_def)
      with hunk asc have "currentLine st \<le> parseInt g - 1" by (simp add: step)
      with inv show ?thesis unfolding step by (rule addedBelowCounter_counter)
    qed
  qed
next
  case False
  show ?thesis
  proof (cases "inHunk st")
    case False
    with \<open>\<not> startsWith l ''@@''\<close> show ?thesis using inv by (simp add: parseLine_def)
  next
    case True
    have ctx: "addedBelowCounter (st\<lparr>currentLine := currentLine st + 1\<rparr>)"
      using addedBelowCounter_counter [OF inv, of "currentLine st + 1"] True
      by (simp add: addedBelowCounter_def)
    show ?thesis
      using False True inv ctx addedBelowCounter_added [OF inv True]
        addedBelowCounter_deleted [OF inv True, of "currentLine st - 1"]
      by (simp add: parseLine_def)
  qed
qed

lemma addedBelowCounter_parseLines:
  "addedBelowCounter st \<Longrightarrow> hunksAscending st ls \<Longrightarrow> addedBelowCounter (parseLines st ls)"
proof (induction ls arbitrary: st)
  case Nil
  then show ?case by (simp add: parseLines_def)
next
  case (Cons l ls)
  from Cons.prems(2) have asc: "isHunkHeader l \<Longrightarrow> inHunk st \<Longrightarrow>
      currentLine st \<le> currentLine (parseLine st l)"
    and rest: "hunksAscending (parseLine st l) ls"
    by (simp_all split: if_splits)
  have "addedBelowCounter (parseLine st l)"
    using Cons.prems(1) asc by (rule addedBelowCounter_parseLine)
  then have "addedBelowCounter (parseLines (parseLine st l) ls)"
    using rest by (rule Cons.IH)
  then show ?case by (simp add: parseLines_def)
qed

lemma addedBelowCounter_initialState: "addedBelowCounter initialState"
  by (simp add: addedBelowCounter_def initialState_def)

lemma parseDiff_added_separated:
  assumes "hunksAscending initialState (splitLines diff)"
  shows "sorted_wrt (\<lambda>a b. endLine a < startLine b \<and> \<not> overlap a b) (filter isAdded (parseDiff diff))"
proof -
  have "addedBelowCounter (parseLines initialState (splitLines diff))"
    using addedBelowCounter_initialState assms by (rule addedBelowCounter_parseLines)
  then have "sorted_wrt (\<lambda>a b. endLine a < startLine b) (filter isAdded (parseDiff diff))"
    by (simp add: addedBelowCounter_def parseDiff_def)
  then show ?thesis
    by (rule sorted_wrt_mono_rel [rotated]) (simp add: overlap_def)
qed

text \<open>
  Claim C6 as stated fails in its second part. On a hunk that deletes two lines in a row
  after a context line, each \<^verbatim>\<open>-\<close> line is anchored to the line of the context line and
  the second is not merged into the first, so the output holds the same deleted range
  twice: two ranges of the output overlap.
\<close>

theorem parseDiff_ranges_overlap_counterexample:
  "parseDiff (''@@ -1,3 +1,1 @@'' @ [NL] @ '' kept'' @ [NL] @ ''-first'' @ [NL] @ ''-second'')
     = [\<lparr>lc_type = deleted, startLine = 0, endLine = 0\<rparr>,
        \<lparr>lc_type = deleted, startLine = 0, endLine = 0\<rparr>]
   \<and> overlap
       (parseDiff (''@@ -1,3 +1,1 @@'' @ [NL] @ '' kept'' @ [NL] @ ''-first'' @ [NL] @ ''-second'') ! 0)
       (parseDiff (''@@ -1,3 +1,1 @@'' @ [NL] @ '' kept'' @ [NL] @ ''-first'' @ [NL] @ ''-second'') ! 1)"
  by code_simp

lemma digitValue_nonneg: "isDigit c \<Longrightarrow> 0 \<le> digitValue c"
  by (auto simp: isDigit_def digitValue_def)

lemma foldl_digits_nonneg:
  "0 \<le> a \<Longrightarrow> list_all isDigit g \<Longrightarrow> 0 \<le> foldl (\<lambda>a c. 10 * a + digitValue c) a g"
proof (induction g arbitrary: a)
  case Nil
  then show ?case by simp
next
  case (Cons c g)
  then have "0 \<le> 10 * a + digitValue c"
    using digitValue_nonneg [of c] by simp
  with Cons show ?case by simp
qed

lemma parseInt_nonneg: "list_all isDigit g \<Longrightarrow> 0 \<le> parseInt g"
  by (simp add: parseInt_def foldl_digits_nonneg)

lemma matchHunkAt_digits: "matchHunkAt s = Some g \<Longrightarrow> list_all isDigit g"
  by (auto simp: matchHunkAt_def list_all_iff split: option.splits if_splits dest: set_takeWhileD)

lemma matchHunk_digits: "matchHunk s = Some g \<Longrightarrow> list_all isDigit g"
  by (induction s) (auto split: option.splits dest: matchHunkAt_digits)

lemma withinSafeRange_addOrExtendChange:
  assumes "list_all withinSafeRange cs" and "- 2 \<le> n" and "n \<le> maxSafeInteger"
  shows "list_all withinSafeRange (addOrExtendChange cs ty n)"
proof (cases "cs \<noteq> [] \<and> lc_type (last cs) = ty \<and> endLine (last cs) = n - 1")
  case False
  then have "addOrExtendChange cs ty n = cs @ [\<lparr>lc_type = ty, startLine = n, endLine = n\<rparr>]"
    by (auto simp: addOrExtendChange_def)
  with assms show ?thesis
    by (simp add: withinSafeRange_def)
next
  case True
  then have eq: "addOrExtendChange cs ty n = butlast cs @ [(last cs)\<lparr>endLine := n\<rparr>]"
    by (simp add: addOrExtendChange_def)
  from True have "last cs \<in> set cs" by simp
  with assms(1) have l: "withinSafeRange (last cs)"
    by (simp add: list_all_iff)
  from assms(1) have b: "list_all withinSafeRange (butlast cs)"
    by (auto simp: list_all_iff dest: in_set_butlastD)
  from l True assms(3) have "withinSafeRange ((last cs)\<lparr>endLine := n\<rparr>)"
    by (simp add: withinSafeRange_def)
  with b show ?thesis
    by (simp add: eq)
qed

lemma safe_parseLine:
  assumes lo: "- 1 \<le> currentLine st" and hi: "currentLine st \<le> maxSafeInteger"
    and rs: "list_all withinSafeRange (changes st)"
  shows "- 1 \<le> currentLine (parseLine st l) \<and> list_all withinSafeRange (changes (parseLine st l))"
proof (cases "startsWith l ''@@''")
  case True
  show ?thesis
  proof (cases "matchHunk l")
    case None
    with True lo rs show ?thesis by (simp add: parseLine_def)
  next
    case (Some g)
    then have "0 \<le> parseInt g"
      by (intro parseInt_nonneg matchHunk_digits)
    with True Some rs show ?thesis by (simp add: parseLine_def)
  qed
next
  case False
  have a: "list_all withinSafeRange (addOrExtendChange (changes st) added (currentLine st))"
    using rs lo hi by (intro withinSafeRange_addOrExtendChange) simp_all
  have d: "list_all withinSafeRange (addOrExtendChange (changes st) deleted (currentLine st - 1))"
    using rs lo hi by (intro withinSafeRange_addOrExtendChange) simp_all
  from False lo rs a d show ?thesis
    by (simp add: parseLine_def)
qed

lemma safe_parseLines:
  "- 1 \<le> currentLine st \<Longrightarrow> currentLine st \<le> maxSafeInteger \<Longrightarrow>
   list_all withinSafeRange (changes st) \<Longrightarrow> withinSafeIntegers st ls \<Longrightarrow>
     list_all withinSafeRange (changes (parseLines st ls))"
proof (induction ls arbitrary: st)
  case Nil
  then show ?case by (simp add: parseLines_def)
next
  case (Cons l ls)
  from Cons.prems(1-3) have step: "- 1 \<le> currentLine (parseLine st l)"
      "list_all withinSafeRange (changes (parseLine st l))"
    using safe_parseLine [of st l] by simp_all
  from Cons.prems(4) have hi: "currentLine (parseLine st l) \<le> maxSafeInteger"
    and rest: "withinSafeIntegers (parseLine st l) ls"
    by simp_all
  have "list_all withinSafeRange (changes (parseLines (parseLine st l) ls))"
    using step(1) hi step(2) rest by (rule Cons.IH)
  then show ?case by (simp add: parseLines_def)
qed

lemma parseDiff_within_safe_range:
  "withinSafeIntegers initialState (splitLines diff) \<Longrightarrow> list_all withinSafeRange (parseDiff diff)"
  unfolding parseDiff_def
  by (rule safe_parseLines) (simp_all add: initialState_def maxSafeInteger_def)

text \<open>
  Claim C6 as amended. For every diff text: (1) the output preserves encounter order: the
  ranges emitted after any prefix of the lines are still in the final output, at the same
  positions with the same type and start line, the last of them possibly extended;
  (2) when every number read from a hunk header and every value of the line counter stays
  at most \<open>2^53 - 1\<close>, so do the line numbers of the output, and if moreover the hunks are
  ascending, each added range ends before every later added range starts, so no two added
  ranges overlap; (3) the output is empty when no line of the input is a hunk header;
  (4) a line that starts with \<^verbatim>\<open>@@\<close> and does not match the hunk-header pattern leaves
  the parser state, hunk mode included, as it was.
\<close>

theorem parseDiff_contract:
  "(splitLines diff = ls1 @ ls2
      \<longrightarrow> keepsRanges (changes (parseLines initialState ls1)) (parseDiff diff))
   \<and> (withinSafeIntegers initialState (splitLines diff)
      \<longrightarrow> list_all withinSafeRange (parseDiff diff))
   \<and> (withinSafeIntegers initialState (splitLines diff)
        \<and> hunksAscending initialState (splitLines diff)
      \<longrightarrow> sorted_wrt (\<lambda>a b. endLine a < startLine b \<and> \<not> overlap a b)
            (filter isAdded (parseDiff diff)))
   \<and> (list_all (\<lambda>l. \<not> isHunkHeader l) (splitLines plain) \<longrightarrow> parseDiff plain = [])
   \<and> (startsWith l ''@@'' \<and> matchHunk l = None \<longrightarrow> parseLine st l = st)"
  using parseDiff_keeps_prefix_ranges [of diff ls1 ls2] parseDiff_added_separated [of diff]
    parseDiff_within_safe_range [of diff]
    parseDiff_no_header [of plain] parseLine_malformed_header [of l st]
  by blast

theorem parseDiff_contract_witness:
  "splitLines (''@@ -1,2 +1,3 @@'' @ [NL] @ ''+first'' @ [NL] @ '' kept'' @ [NL]
               @ ''@@ -10,2 +11,4 @@'' @ [NL] @ ''-old'' @ [NL] @ ''+second'' @ [NL] @ ''+third'')
     = [''@@ -1,2 +1,3 @@'', ''+first'', '' kept'', ''@@ -10,2 +11,4 @@'', ''-old'']
       @ [''+second'', ''+third'']
   \<and> keepsRanges
       (changes (parseLines initialState
          [''@@ -1,2 +1,3 @@'', ''+first'', '' kept'', ''@@ -10,2 +11,4 @@'', ''-old'']))
       (parseDiff (''@@ -1,2 +1,3 @@'' @ [NL] @ ''+first'' @ [NL] @ '' kept'' @ [NL]
               @ ''@@ -10,2 +11,4 @@'' @ [NL] @ ''-old'' @ [NL] @ ''+second'' @ [NL] @ ''+third''))
   \<and> withinSafeIntegers initialState
       (splitLines (''@@ -1,2 +1,3 @@'' @ [NL] @ ''+first'' @ [NL] @ '' kept'' @ [NL]
               @ ''@@ -10,2 +11,4 @@'' @ [NL] @ ''-old'' @ [NL] @ ''+second'' @ [NL] @ ''+third''))
   \<and> hunksAscending initialState
       (splitLines (''@@ -1,2 +1,3 @@'' @ [NL] @ ''+first'' @ [NL] @ '' kept'' @ [NL]
               @ ''@@ -10,2 +11,4 @@'' @ [NL] @ ''-old'' @ [NL] @ ''+second'' @ [NL] @ ''+third''))
   \<and> parseDiff (''@@ -1,2 +1,3 @@'' @ [NL] @ ''+first'' @ [NL] @ '' kept'' @ [NL]
               @ ''@@ -10,2 +11,4 @@'' @ [NL] @ ''-old'' @ [NL] @ ''+second'' @ [NL] @ ''+third'')
       = [\<lparr>lc_type = added, startLine = 0, endLine = 0\<rparr>,
          \<lparr>lc_type = deleted, startLine = 9, endLine = 9\<rparr>,
          \<lparr>lc_type = added, startLine = 10, endLine = 11\<rparr>]
   \<and> list_all withinSafeRange
       (parseDiff (''@@ -1,2 +1,3 @@'' @ [NL] @ ''+first'' @ [NL] @ '' kept'' @ [NL]
               @ ''@@ -10,2 +11,4 @@'' @ [NL] @ ''-old'' @ [NL] @ ''+second'' @ [NL] @ ''+third''))
   \<and> sorted_wrt (\<lambda>a b. endLine a < startLine b \<and> \<not> overlap a b)
       (filter isAdded
         (parseDiff (''@@ -1,2 +1,3 @@'' @ [NL] @ ''+first'' @ [NL] @ '' kept'' @ [NL]
               @ ''@@ -10,2 +11,4 @@'' @ [NL] @ ''-old'' @ [NL] @ ''+second'' @ [NL] @ ''+third'')))
   \<and> list_all (\<lambda>l. \<not> isHunkHeader l) (splitLines (''+no hunk'' @ [NL] @ ''@@ -x +y @@''))
   \<and> parseDiff (''+no hunk'' @ [NL] @ ''@@ -x +y @@'') = []
   \<and> startsWith ''@@ -x +y @@'' ''@@'' \<and> matchHunk ''@@ -x +y @@'' = None
   \<and> parseLine \<lparr>changes = [], currentLine = 4, inHunk = True\<rparr> ''@@ -x +y @@''
       = \<lparr>changes = [], currentLine = 4, inHunk = True\<rparr>"
proof -
  let ?diff = "''@@ -1,2 +1,3 @@'' @ [NL] @ ''+first'' @ [NL] @ '' kept'' @ [NL]
               @ ''@@ -10,2 +11,4 @@'' @ [NL] @ ''-old'' @ [NL] @ ''+second'' @ [NL] @ ''+third''"
  have h1: "splitLines ?diff
     = [''@@ -1,2 +1,3 @@'', ''+first'', '' kept'', ''@@ -10,2 +11,4 @@'', ''-old'']
       @ [''+second'', ''+third'']"
    by code_simp
  have h2: "withinSafeIntegers initialState (splitLines ?diff)"
    by code_simp
  have h3: "hunksAscending initialState (splitLines ?diff)"
    by code_simp
  have h4: "list_all (\<lambda>l. \<not> isHunkHeader l) (splitLines (''+no hunk'' @ [NL] @ ''@@ -x +y @@''))"
    by code_simp
  have h5: "startsWith ''@@ -x +y @@'' ''@@'' \<and> matchHunk ''@@ -x +y @@'' = None"
    by code_simp
  have ev: "parseDiff ?diff
       = [\<lparr>lc_type = added, startLine = 0, endLine = 0\<rparr>,
          \<lparr>lc_type = deleted, startLine = 9, endLine = 9\<rparr>,
          \<lparr>lc_type = added, startLine = 10, endLine = 11\<rparr>]"
    by code_simp
  from h1 h2 h3 h4 h5 ev
    parseDiff_contract [of ?diff
      "[''@@ -1,2 +1,3 @@'', ''+first'', '' kept'', ''@@ -10,2 +11,4 @@'', ''-old'']"
      "[''+second'', ''+third'']"
      "''+no hunk'' @ [NL] @ ''@@ -x +y @@''" "''@@ -x +y @@''"
      "\<lparr>changes = [], currentLine = 4, inHunk = True\<rparr>"]
  show ?thesis by blast
qed

end
